theory Spec2Isabelle
  imports Main "HOL-Library.AList"
begin

section \<open>Data model\<close>

text \<open>
  A plan unit is the object literal pushed by \<open>generatePlan\<close> (planner.js):
  \<open>{ date, commits, char, row, col }\<close>. JavaScript numbers are modelled as
  unbounded integers: every number the planner and the tracker handle is an integer far
  below \<open>2^53\<close>.
\<close>

record plan_unit =
  date :: string
  commits :: int
  char :: string
  row :: int
  col :: int

text \<open>
  \<open>getPending\<close> (tracker.js) spreads a plan unit and adds two fields:
  \<open>{ ...entry, pendingCommits, doneCommits }\<close>. The spread is a record extension.
\<close>

record pending_unit = plan_unit +
  pendingCommits :: int
  doneCommits :: int

text \<open>
  The value stored in \<open>textPlanMap\<close> for a filled pixel:
  \<open>{ date, isText, char, row, col }\<close>. Its fields carry the prefix \<open>entry_\<close>
  where the name is already a field of \<open>plan_unit\<close>.
\<close>

record text_entry =
  entry_date :: string
  isText :: bool
  entry_char :: string
  entry_row :: int
  entry_col :: int

text \<open>
  The only exception the planner can raise is the \<open>TypeError\<close> of reading a property
  of \<open>undefined\<close> (a glyph without a row). The two \<open>console.warn\<close> calls are
  modelled as values returned next to the plan.
\<close>

datatype error = TypeError

datatype warning = CharNotFound string | TextTooLong string

text \<open>
  The font table \<open>FONT\<close> of fonts.js maps a character key to a bitmap, an array of
  rows of numbers. \<open>textPlanMap\<close> is a JavaScript \<open>Map\<close>: an association list
  in insertion order, where setting an existing key replaces the value in place
  (\<open>AList.update\<close>).
\<close>

type_synonym glyph = "int list list"

type_synonym fontTable = "string \<rightharpoonup> glyph"

type_synonym textPlanMap = "(string \<times> text_entry) list"

section \<open>Dates\<close>

text \<open>
  The calendar day of a \<open>Date\<close> is its local day, counted from 1 January 1970: the
  planner builds dates at local midnight and moves them by whole days. The functions
  below are the day-level part of the ECMAScript definitions of the Date operations
  (\<open>DayFromYear\<close>, \<open>YearFromTime\<close>, \<open>InLeapYear\<close>, \<open>MonthFromTime\<close>,
  \<open>DateFromTime\<close>, \<open>WeekDay\<close>, \<open>MakeDay\<close>). The glyph layout reads only the
  calendar day of its dates. The leveling loop also compares two dates, and there the
  local time of day counts: it is modelled in the subsection on the time of day below.
  The bound of the time value (\<open>10^8\<close> days on either side of 1970) is not modelled.

  \<open>YearFromTime\<close> is specified as the largest year whose first day is not after the
  given day; \<open>getFullYear\<close> computes it from an estimate that is off by at most one,
  and \<open>getFullYear_iff\<close> below shows that it meets that specification.
\<close>

type_synonym jsdate = int

definition dayFromYear :: "int \<Rightarrow> int" where
  "dayFromYear y = 365 * (y - 1970) + (y - 1969) div 4 - (y - 1901) div 100 + (y - 1601) div 400"

definition inLeapYear :: "int \<Rightarrow> bool" where
  "inLeapYear y = (y mod 4 = 0 \<and> (y mod 100 \<noteq> 0 \<or> y mod 400 = 0))"

definition daysInYear :: "int \<Rightarrow> int" where
  "daysInYear y = (if inLeapYear y then 366 else 365)"

definition getFullYear :: "jsdate \<Rightarrow> int" where
  "getFullYear d =
     (let y = 1970 + (400 * d) div 146097
      in if d < dayFromYear y then y - 1
         else if dayFromYear (y + 1) \<le> d then y + 1
         else y)"

definition leapDays :: "int \<Rightarrow> int" where
  "leapDays y = (if inLeapYear y then 1 else 0)"

definition dayWithinYear :: "jsdate \<Rightarrow> int" where
  "dayWithinYear d = d - dayFromYear (getFullYear d)"

definition monthStart :: "int \<Rightarrow> int \<Rightarrow> int" where
  "monthStart m l =
     (if m = 0 then 0 else if m = 1 then 31 else if m = 2 then 59 + l
      else if m = 3 then 90 + l else if m = 4 then 120 + l else if m = 5 then 151 + l
      else if m = 6 then 181 + l else if m = 7 then 212 + l else if m = 8 then 243 + l
      else if m = 9 then 273 + l else if m = 10 then 304 + l else 334 + l)"

definition getMonth :: "jsdate \<Rightarrow> int" where
  "getMonth d =
     (let dwy = dayWithinYear d; l = leapDays (getFullYear d)
      in if dwy < 31 then 0 else if dwy < 59 + l then 1 else if dwy < 90 + l then 2
         else if dwy < 120 + l then 3 else if dwy < 151 + l then 4 else if dwy < 181 + l then 5
         else if dwy < 212 + l then 6 else if dwy < 243 + l then 7 else if dwy < 273 + l then 8
         else if dwy < 304 + l then 9 else if dwy < 334 + l then 10 else 11)"

definition getDate :: "jsdate \<Rightarrow> int" where
  "getDate d = dayWithinYear d - monthStart (getMonth d) (leapDays (getFullYear d)) + 1"

definition getDay :: "jsdate \<Rightarrow> int" where
  "getDay d = (d + 4) mod 7"

definition makeDay :: "int \<Rightarrow> int \<Rightarrow> int \<Rightarrow> jsdate" where
  "makeDay y m dt =
     (let ym = y + m div 12; mn = m mod 12
      in dayFromYear ym + monthStart mn (leapDays ym) + dt - 1)"

text \<open>
  \<open>new Date(year, monthIndex, day)\<close>: the constructor maps a year from 0 to 99 to
  1900 + year (ECMAScript, Date constructor: "if y is an integer with 0 \<le> y \<le> 99 then
  yr is 1900 + y"). \<open>setDate(n)\<close> is \<open>MakeDay\<close> of the date's own year and month
  with the new day of the month, so that days outside the month roll over.
\<close>

definition dateYear :: "int \<Rightarrow> int" where
  "dateYear y = (if 0 \<le> y \<and> y \<le> 99 then 1900 + y else y)"

definition newDate :: "int \<Rightarrow> int \<Rightarrow> int \<Rightarrow> jsdate" where
  "newDate y m dt = makeDay (dateYear y) m dt"

definition setDate :: "jsdate \<Rightarrow> int \<Rightarrow> jsdate" where
  "setDate d dt = makeDay (getFullYear d) (getMonth d) dt"

subsection \<open>Time of day\<close>

text \<open>
  A date with its local time of day, in milliseconds after local midnight. The time zone
  of the process is a parameter: for every local day it gives the start and the length of
  the stretch of local time that a forward clock change skips on that day (length 0 on a
  day without one). A local time inside the skipped stretch does not exist; the Date
  operations read it with the offset before the change, which moves it forward by the
  length of the stretch (\<open>new Date(2026, 8, 6)\<close> is 01:00 where the clocks go from
  00:00 to 01:00 on 6 September 2026). Clock changes are taken to be short enough for the
  moved time to stay within its day, and backward changes do not alter a local time.
\<close>

type_synonym timeZone = "jsdate \<Rightarrow> nat \<times> nat"

type_synonym jsdatetime = "jsdate \<times> nat"

definition localTime :: "timeZone \<Rightarrow> jsdate \<Rightarrow> nat \<Rightarrow> nat" where
  "localTime zone day tod =
     (if fst (zone day) \<le> tod \<and> tod < fst (zone day) + snd (zone day)
      then tod + snd (zone day) else tod)"

text \<open>
  \<open>new Date(year, monthIndex, day)\<close> is local midnight of that day, and
  \<open>setDate(n)\<close> keeps the local time of day.
\<close>

definition newDateTime :: "timeZone \<Rightarrow> int \<Rightarrow> int \<Rightarrow> int \<Rightarrow> jsdatetime" where
  "newDateTime zone y m dt = (newDate y m dt, localTime zone (newDate y m dt) 0)"

definition setDateTime :: "timeZone \<Rightarrow> jsdatetime \<Rightarrow> int \<Rightarrow> jsdatetime" where
  "setDateTime zone d dt = (setDate (fst d) dt, localTime zone (setDate (fst d) dt) (snd d))"

text \<open>
  \<open>d <= endDate\<close> compares the time values of the two dates. Both are local times
  that exist, so the order of their time values is the order of their days and, on the
  same day, of their times of day.
\<close>

definition dateLe :: "jsdatetime \<Rightarrow> jsdatetime \<Rightarrow> bool" where
  "dateLe d e \<longleftrightarrow> fst d < fst e \<or> (fst d = fst e \<and> snd d \<le> snd e)"

subsection \<open>Calendar arithmetic\<close>

lemma div_succ:
  fixes a n :: int
  assumes "0 < n"
  shows "(a + 1) div n = a div n + (if (a + 1) mod n = 0 then 1 else 0)"
proof (cases "a mod n = n - 1")
  case True
  have "n * (a div n) + a mod n = a" by simp
  then have e: "a + 1 = n * (a div n + 1) + 0"
    using True by (simp add: algebra_simps)
  have d: "(a + 1) div n = a div n + 1"
    by (rule int_div_pos_eq [OF e]) (use assms in auto)
  have m: "(a + 1) mod n = 0"
    by (rule int_mod_pos_eq [OF e]) (use assms in auto)
  show ?thesis using d m by simp
next
  case False
  have r: "0 \<le> a mod n" "a mod n < n" using assms by simp_all
  have "n * (a div n) + a mod n = a" by simp
  then have e: "a + 1 = n * (a div n) + (a mod n + 1)"
    by linarith
  have d: "(a + 1) div n = a div n"
    by (rule int_div_pos_eq [OF e]) (use r False in auto)
  have m: "(a + 1) mod n = a mod n + 1"
    by (rule int_mod_pos_eq [OF e]) (use r False in auto)
  show ?thesis using d m r by simp
qed

lemma div4_step: "((y::int) + 1 - 1969) div 4 = (y - 1969) div 4 + (if y mod 4 = 0 then 1 else 0)"
proof -
  have h: "y - 1969 + 1 = y + 4 * (-492)" by simp
  have "(y + 4 * (-492)) mod 4 = y mod 4" by (rule mod_mult_self2)
  then have m: "(y - 1969 + 1) mod 4 = y mod 4" by (simp only: h)
  have g: "y + 1 - 1969 = y - 1969 + 1" by simp
  have "(y - 1969 + 1) div 4 = (y - 1969) div 4 + (if (y - 1969 + 1) mod 4 = 0 then 1 else 0)"
    by (rule div_succ) simp
  then show ?thesis by (simp only: m g)
qed

lemma div100_step: "((y::int) + 1 - 1901) div 100 = (y - 1901) div 100 + (if y mod 100 = 0 then 1 else 0)"
proof -
  have h: "y - 1901 + 1 = y + 100 * (-19)" by simp
  have "(y + 100 * (-19)) mod 100 = y mod 100" by (rule mod_mult_self2)
  then have m: "(y - 1901 + 1) mod 100 = y mod 100" by (simp only: h)
  have g: "y + 1 - 1901 = y - 1901 + 1" by simp
  have "(y - 1901 + 1) div 100 = (y - 1901) div 100 + (if (y - 1901 + 1) mod 100 = 0 then 1 else 0)"
    by (rule div_succ) simp
  then show ?thesis by (simp only: m g)
qed

lemma div400_step: "((y::int) + 1 - 1601) div 400 = (y - 1601) div 400 + (if y mod 400 = 0 then 1 else 0)"
proof -
  have h: "y - 1601 + 1 = y + 400 * (-4)" by simp
  have "(y + 400 * (-4)) mod 400 = y mod 400" by (rule mod_mult_self2)
  then have m: "(y - 1601 + 1) mod 400 = y mod 400" by (simp only: h)
  have g: "y + 1 - 1601 = y - 1601 + 1" by simp
  have "(y - 1601 + 1) div 400 = (y - 1601) div 400 + (if (y - 1601 + 1) mod 400 = 0 then 1 else 0)"
    by (rule div_succ) simp
  then show ?thesis by (simp only: m g)
qed

lemma mod_chain:
  fixes y :: int
  shows "y mod 400 = 0 \<Longrightarrow> y mod 100 = 0" and "y mod 100 = 0 \<Longrightarrow> y mod 4 = 0"
proof -
  have a: "(100::int) dvd 400" by (rule dvdI [of _ _ 4]) simp
  have b: "(4::int) dvd 100" by (rule dvdI [of _ _ 25]) simp
  show "y mod 400 = 0 \<Longrightarrow> y mod 100 = 0"
    using dvd_trans [OF a, of y] by (simp only: mod_eq_0_iff_dvd)
  show "y mod 100 = 0 \<Longrightarrow> y mod 4 = 0"
    using dvd_trans [OF b, of y] by (simp only: mod_eq_0_iff_dvd)
qed

lemma dayFromYear_step: "dayFromYear (y + 1) = dayFromYear y + daysInYear y"
proof -
  have e: "dayFromYear (y + 1) = dayFromYear y + 365 + (if y mod 4 = 0 then 1 else 0)
        - (if y mod 100 = 0 then 1 else 0) + (if y mod 400 = 0 then 1 else 0)"
    unfolding dayFromYear_def div4_step div100_step div400_step by (simp only: algebra_simps)
  consider "y mod 4 \<noteq> 0" | "y mod 4 = 0" "y mod 100 \<noteq> 0"
    | "y mod 100 = 0" "y mod 400 \<noteq> 0" | "y mod 400 = 0"
    by argo
  then show ?thesis
  proof cases
    case 1
    then have "y mod 100 \<noteq> 0" "y mod 400 \<noteq> 0" using mod_chain [of y] by argo+
    with 1 show ?thesis unfolding e daysInYear_def inLeapYear_def by simp
  next
    case 2
    then have "y mod 400 \<noteq> 0" using mod_chain [of y] by argo
    with 2 show ?thesis unfolding e daysInYear_def inLeapYear_def by simp
  next
    case 3
    then have "y mod 4 = 0" using mod_chain [of y] by argo
    with 3 show ?thesis unfolding e daysInYear_def inLeapYear_def by simp
  next
    case 4
    then have "y mod 4 = 0" "y mod 100 = 0" using mod_chain [of y] by argo+
    with 4 show ?thesis unfolding e daysInYear_def inLeapYear_def by simp
  qed
qed

lemma daysInYear_pos: "365 \<le> daysInYear y" "daysInYear y \<le> 366"
  by (simp_all add: daysInYear_def)

lemma dayFromYear_less_step: "dayFromYear y < dayFromYear (y + 1)"
  using dayFromYear_step [of y] daysInYear_pos [of y] by linarith

lemma dayFromYear_mono: "y1 \<le> y2 \<Longrightarrow> dayFromYear y1 \<le> dayFromYear y2"
proof (induction y2 rule: int_ge_induct)
  case base
  show ?case by simp
next
  case (step i)
  then show ?case using dayFromYear_less_step [of i] by linarith
qed

lemma dayFromYear_strict_mono: "y1 < y2 \<Longrightarrow> dayFromYear y1 < dayFromYear y2"
  using dayFromYear_mono [of "y1 + 1" y2] dayFromYear_less_step [of y1] by linarith

lemma div_bounds:
  fixes a n :: int
  assumes "0 < n"
  shows "n * (a div n) \<le> a" and "a < n * (a div n) + n"
proof -
  have e: "n * (a div n) + a mod n = a" by simp
  have "0 \<le> a mod n" "a mod n < n" using assms by simp_all
  with e show "n * (a div n) \<le> a" and "a < n * (a div n) + n" by linarith+
qed

lemma dayFromYear_estimate:
  "400 * dayFromYear y \<le> 146097 * (y - 1970) + 589"
  "146097 * (y - 1970) - 506 \<le> 400 * dayFromYear y"
proof -
  define q4 where "q4 = (y - 1969) div 4"
  define q100 where "q100 = (y - 1901) div 100"
  define q400 where "q400 = (y - 1601) div 400"
  have a: "4 * q4 \<le> y - 1969" "y - 1969 < 4 * q4 + 4"
    unfolding q4_def by (rule div_bounds, simp)+
  have b: "100 * q100 \<le> y - 1901" "y - 1901 < 100 * q100 + 100"
    unfolding q100_def by (rule div_bounds, simp)+
  have c: "400 * q400 \<le> y - 1601" "y - 1601 < 400 * q400 + 400"
    unfolding q400_def by (rule div_bounds, simp)+
  have d: "dayFromYear y = 365 * (y - 1970) + q4 - q100 + q400"
    unfolding dayFromYear_def q4_def q100_def q400_def ..
  have l: "400 * dayFromYear y = 146000 * y - 287620000 + 400 * q4 - 400 * q100 + 400 * q400"
    unfolding d by simp
  have r: "146097 * (y - 1970) = 146097 * y - 287811090" by simp
  show "400 * dayFromYear y \<le> 146097 * (y - 1970) + 589"
    unfolding l r using a b c by linarith
  show "146097 * (y - 1970) - 506 \<le> 400 * dayFromYear y"
    unfolding l r using a b c by linarith
qed

lemma getFullYear_bounds:
  "dayFromYear (getFullYear d) \<le> d" "d < dayFromYear (getFullYear d + 1)"
proof -
  define e where "e = (400 * d) div 146097"
  have eb: "146097 * e \<le> 400 * d" "400 * d < 146097 * e + 146097"
    unfolding e_def by (rule div_bounds, simp)+
  define lo_day where "lo_day = dayFromYear (1970 + e - 1)"
  define hi_day where "hi_day = dayFromYear (1970 + e + 1 + 1)"
  have "400 * lo_day \<le> 146097 * e - 145508"
    unfolding lo_day_def using dayFromYear_estimate(1) [of "1970 + e - 1"] by simp
  then have "lo_day \<le> d" using eb by linarith
  then have lo: "dayFromYear (1970 + e - 1) \<le> d" by (simp only: lo_day_def)
  have "146097 * e + 291688 \<le> 400 * hi_day"
    unfolding hi_day_def using dayFromYear_estimate(2) [of "1970 + e + 1 + 1"] by simp
  then have "d < hi_day" using eb by linarith
  then have hi: "d < dayFromYear (1970 + e + 1 + 1)" by (simp only: hi_day_def)
  have g: "getFullYear d = (if d < dayFromYear (1970 + e) then 1970 + e - 1
         else if dayFromYear (1970 + e + 1) \<le> d then 1970 + e + 1 else 1970 + e)"
    unfolding getFullYear_def e_def Let_def ..
  have s: "1970 + e - 1 + 1 = 1970 + e" by simp
  consider (below) "d < dayFromYear (1970 + e)"
    | (above) "\<not> d < dayFromYear (1970 + e)" "dayFromYear (1970 + e + 1) \<le> d"
    | (exact) "\<not> d < dayFromYear (1970 + e)" "\<not> dayFromYear (1970 + e + 1) \<le> d"
    by argo
  then have "dayFromYear (getFullYear d) \<le> d \<and> d < dayFromYear (getFullYear d + 1)"
  proof cases
    case below
    then have "getFullYear d = 1970 + e - 1" unfolding g by simp
    then show ?thesis using lo below by (simp only: s) 
  next
    case above
    then have "getFullYear d = 1970 + e + 1" unfolding g by simp
    then show ?thesis using hi above by simp
  next
    case exact
    then have "getFullYear d = 1970 + e" unfolding g by simp
    then show ?thesis using exact by simp
  qed
  then show "dayFromYear (getFullYear d) \<le> d" and "d < dayFromYear (getFullYear d + 1)"
    by simp_all
qed

lemma getFullYear_unique:
  assumes "dayFromYear y \<le> d" and "d < dayFromYear (y + 1)"
  shows "getFullYear d = y"
proof (rule ccontr)
  assume n: "getFullYear d \<noteq> y"
  show False
  proof (cases "getFullYear d < y")
    case True
    then have "dayFromYear (getFullYear d + 1) \<le> dayFromYear y"
      by (intro dayFromYear_mono) simp
    then show False using assms getFullYear_bounds [of d] by linarith
  next
    case False
    with n have "y + 1 \<le> getFullYear d" by simp
    then have "dayFromYear (y + 1) \<le> dayFromYear (getFullYear d)"
      by (rule dayFromYear_mono)
    then show False using assms getFullYear_bounds [of d] by linarith
  qed
qed

lemma getFullYear_iff: "getFullYear d = y \<longleftrightarrow> dayFromYear y \<le> d \<and> d < dayFromYear (y + 1)"
  using getFullYear_unique getFullYear_bounds by blast

lemma getMonth_range: "0 \<le> getMonth d" "getMonth d \<le> 11"
  by (simp_all add: getMonth_def Let_def)

lemma dayWithinYear_range: "0 \<le> dayWithinYear d" "dayWithinYear d < 365 + leapDays (getFullYear d)"
proof -
  show "0 \<le> dayWithinYear d" using getFullYear_bounds(1) [of d] by (simp add: dayWithinYear_def)
  have "dayFromYear (getFullYear d + 1) = dayFromYear (getFullYear d) + (365 + leapDays (getFullYear d))"
    by (simp add: dayFromYear_step daysInYear_def leapDays_def)
  then show "dayWithinYear d < 365 + leapDays (getFullYear d)"
    using getFullYear_bounds(2) [of d] by (simp add: dayWithinYear_def)
qed

lemma makeDay_month: "0 \<le> m \<Longrightarrow> m \<le> 11 \<Longrightarrow> makeDay y m dt = dayFromYear y + monthStart m (leapDays y) + dt - 1"
  by (simp add: makeDay_def Let_def)

lemma date_decompose:
  "d = dayFromYear (getFullYear d) + monthStart (getMonth d) (leapDays (getFullYear d)) + getDate d - 1"
  by (simp add: getDate_def dayWithinYear_def)

text \<open>
  Setting the day of the month to \<open>getDate() + k\<close> moves a date by \<open>k\<close> days. The
  loop over the days of the year terminates because of this.
\<close>

lemma setDate_getDate: "setDate d (getDate d + k) = d + k"
proof -
  have "setDate d (getDate d + k) =
      dayFromYear (getFullYear d) + monthStart (getMonth d) (leapDays (getFullYear d)) + (getDate d + k) - 1"
    unfolding setDate_def by (rule makeDay_month) (rule getMonth_range)+
  also have "\<dots> = d + k" using date_decompose [of d] by linarith
  finally show ?thesis .
qed

lemma leapDays_range: "0 \<le> leapDays y" "leapDays y \<le> 1"
  by (simp_all add: leapDays_def)

lemma getDate_range: "1 \<le> getDate d" "getDate d \<le> 31"
proof -
  define w where "w = dayWithinYear d"
  define l where "l = leapDays (getFullYear d)"
  have b: "0 \<le> w" "w < 365 + l" "0 \<le> l" "l \<le> 1"
    unfolding w_def l_def by (rule dayWithinYear_range leapDays_range)+
  have m: "getMonth d = (if w < 31 then 0 else if w < 59 + l then 1 else if w < 90 + l then 2
         else if w < 120 + l then 3 else if w < 151 + l then 4 else if w < 181 + l then 5
         else if w < 212 + l then 6 else if w < 243 + l then 7 else if w < 273 + l then 8
         else if w < 304 + l then 9 else if w < 334 + l then 10 else 11)"
    unfolding getMonth_def w_def l_def Let_def ..
  have g: "getDate d = w - monthStart (getMonth d) l + 1"
    unfolding getDate_def w_def l_def ..
  show "1 \<le> getDate d" unfolding g m monthStart_def using b by (simp split: if_split)
  show "getDate d \<le> 31" unfolding g m monthStart_def using b by (simp split: if_split)
qed

section \<open>Strings\<close>

text \<open>
  \<open>numberToString\<close> is the decimal rendering of an integer in a template literal or
  by \<open>String(n)\<close>; \<open>padStart2\<close> is \<open>padStart(2, '0')\<close>.
\<close>

definition digitChar :: "nat \<Rightarrow> char" where
  "digitChar n = char_of (48 + n)"

fun showNat :: "nat \<Rightarrow> string" where
  "showNat n = (if n < 10 then [digitChar n] else showNat (n div 10) @ [digitChar (n mod 10)])"

declare showNat.simps [simp del]

definition numberToString :: "int \<Rightarrow> string" where
  "numberToString i = (if i < 0 then CHR ''-'' # showNat (nat (- i)) else showNat (nat i))"

definition padStart2 :: "string \<Rightarrow> string" where
  "padStart2 s = replicate (2 - length s) CHR ''0'' @ s"

definition formatDate :: "jsdate \<Rightarrow> string" where
  "formatDate d =
     (let y = getFullYear d;
          m = padStart2 (numberToString (getMonth d + 1));
          dd = padStart2 (numberToString (getDate d))
      in numberToString y @ ''-'' @ m @ ''-'' @ dd)"

text \<open>
  \<open>toUpperCase\<close> is modelled on ASCII text: the letters a to z are mapped to A to Z and
  every other character is kept.
\<close>

definition toUpperCaseChar :: "char \<Rightarrow> char" where
  "toUpperCaseChar c =
     (let n = (of_char c :: nat) in if 97 \<le> n \<and> n \<le> 122 then char_of (n - 32) else c)"

definition toUpperCase :: "string \<Rightarrow> string" where
  "toUpperCase s = map toUpperCaseChar s"

text \<open>
  \<open>a.localeCompare(b)\<close> is modelled as the comparison of the two strings character
  by character in code order. The strings compared by the planner are dates of one plan:
  digits and hyphens in the same positions, on which the locale-sensitive comparison and
  the code order agree.
\<close>

fun localeCompare :: "string \<Rightarrow> string \<Rightarrow> int" where
  "localeCompare [] [] = 0"
| "localeCompare [] (b # bs) = - 1"
| "localeCompare (a # as) [] = 1"
| "localeCompare (a # as) (b # bs) =
     (if (of_char a :: nat) < of_char b then - 1
      else if (of_char b :: nat) < of_char a then 1
      else localeCompare as bs)"

section \<open>Planner (planner.js)\<close>

definition getGraphStartDate :: "int \<Rightarrow> jsdate" where
  "getGraphStartDate year =
     (let jan1 = newDate year 0 1;
          dayOfWeek = getDay jan1;
          startDate = jan1
      in setDate startDate (getDate jan1 - dayOfWeek))"

definition offsetToDate :: "jsdate \<Rightarrow> int \<Rightarrow> int \<Rightarrow> jsdate" where
  "offsetToDate graphStart week day = setDate graphStart (getDate graphStart + week * 7 + day)"

text \<open>
  The head of the scanning loop: the character key is \<open><3\<close> when the character is
  \<open><\<close> and the next one is \<open>3\<close> (both are consumed), and the single character
  otherwise. The result is the key and the text that remains.
\<close>

definition nextKey :: "char \<Rightarrow> string \<Rightarrow> string \<times> string" where
  "nextKey c cs =
     (if c = CHR ''<'' \<and> cs \<noteq> [] \<and> hd cs = CHR ''3'' then (''<3'', tl cs) else ([c], cs))"

text \<open>
  \<open>matrix[row][col]\<close>: a row beyond the bitmap is \<open>undefined\<close> and indexing it
  throws; a column beyond the row reads \<open>undefined\<close>, which is not \<open>1\<close>.
\<close>

definition cell :: "glyph \<Rightarrow> nat \<Rightarrow> nat \<Rightarrow> error + int option" where
  "cell matrix r c =
     (if r < length matrix
      then Inr (if c < length (matrix ! r) then Some (matrix ! r ! c) else None)
      else Inl TypeError)"

text \<open>
  The body of the two pixel loops for one cell, and the loops themselves: rows 0 to 6,
  and in each row the columns 0 to \<open>charWidth - 1\<close>.
\<close>

definition setPixel :: "jsdate \<Rightarrow> int \<Rightarrow> string \<Rightarrow> int \<Rightarrow> nat \<Rightarrow> nat \<Rightarrow> textPlanMap \<Rightarrow> textPlanMap" where
  "setPixel graphStart year charKey currentWeek r c textPlanMap =
     (let d = offsetToDate graphStart (currentWeek + int c) (int r);
          dateStr = formatDate d
      in if getFullYear d = year
         then AList.update dateStr
                \<lparr>entry_date = dateStr, isText = True, entry_char = charKey,
                 entry_row = int r, entry_col = currentWeek + int c\<rparr> textPlanMap
         else textPlanMap)"

definition pixelStep :: "glyph \<Rightarrow> jsdate \<Rightarrow> int \<Rightarrow> string \<Rightarrow> int \<Rightarrow> nat \<times> nat \<Rightarrow> textPlanMap \<Rightarrow> error + textPlanMap" where
  "pixelStep matrix graphStart year charKey currentWeek rc textPlanMap =
     (case cell matrix (fst rc) (snd rc) of
        Inl e \<Rightarrow> Inl e
      | Inr v \<Rightarrow> Inr (if v = Some 1
                     then setPixel graphStart year charKey currentWeek (fst rc) (snd rc) textPlanMap
                     else textPlanMap))"

fun foldE :: "('a \<Rightarrow> 's \<Rightarrow> error + 's) \<Rightarrow> 'a list \<Rightarrow> 's \<Rightarrow> error + 's" where
  "foldE f [] s = Inr s"
| "foldE f (x # xs) s = (case f x s of Inl e \<Rightarrow> Inl e | Inr s' \<Rightarrow> foldE f xs s')"

definition placeGlyph :: "glyph \<Rightarrow> nat \<Rightarrow> jsdate \<Rightarrow> int \<Rightarrow> string \<Rightarrow> int \<Rightarrow> textPlanMap \<Rightarrow> error + textPlanMap" where
  "placeGlyph matrix charWidth graphStart year charKey currentWeek textPlanMap =
     foldE (pixelStep matrix graphStart year charKey currentWeek)
       (List.product [0..<7] [0..<charWidth]) textPlanMap"

text \<open>
  The loop over the characters of the text. Its state is \<open>currentWeek\<close>,
  \<open>textPlanMap\<close> and the warnings printed so far; \<open>continue\<close> is the first
  recursive call, \<open>break\<close> returns the map as it is. \<open>matrix[0].length\<close> throws on
  a bitmap without rows.
\<close>

function layout :: "fontTable \<Rightarrow> jsdate \<Rightarrow> int \<Rightarrow> int \<Rightarrow> textPlanMap \<Rightarrow> warning list \<Rightarrow> string
    \<Rightarrow> error + textPlanMap \<times> warning list" where
  "layout FONT graphStart year currentWeek textPlanMap warnings [] = Inr (textPlanMap, warnings)"
| "layout FONT graphStart year currentWeek textPlanMap warnings (c # cs) =
     (let charKey = fst (nextKey c cs); rest = snd (nextKey c cs)
      in case FONT charKey of
           None \<Rightarrow> layout FONT graphStart year currentWeek textPlanMap
                     (warnings @ [CharNotFound charKey]) rest
         | Some matrix \<Rightarrow>
             (case matrix of
                [] \<Rightarrow> Inl TypeError
              | row0 # _ \<Rightarrow>
                  (let charWidth = length row0
                   in if currentWeek + int charWidth > 53
                      then Inr (textPlanMap, warnings @ [TextTooLong charKey])
                      else (case placeGlyph matrix charWidth graphStart year charKey currentWeek textPlanMap of
                              Inl e \<Rightarrow> Inl e
                            | Inr textPlanMap' \<Rightarrow>
                                layout FONT graphStart year (currentWeek + int charWidth + 1)
                                  textPlanMap' warnings rest))))"
  by pat_completeness auto
termination
  by (relation "measure (\<lambda>(FONT, graphStart, year, currentWeek, textPlanMap, warnings, s). length s)")
     (auto simp: nextKey_def le_imp_less_Suc)

text \<open>
  The body of the loop over the days of the year (background leveling).
  \<open>scrapedExisting[dateStr] || 0\<close> is the recorded count, and 0 when there is none or
  when it is 0. The loop itself starts at \<open>new Date(year, 0, 1)\<close>, moves \<open>d\<close> by
  \<open>d.setDate(d.getDate() + 1)\<close> and runs while \<open>d <= endDate\<close>, where
  \<open>endDate\<close> is \<open>new Date(year, 11, 31)\<close>.
\<close>

definition levelDay :: "textPlanMap \<Rightarrow> int \<Rightarrow> int \<Rightarrow> (string \<rightharpoonup> int) \<Rightarrow> jsdate \<Rightarrow> plan_unit list" where
  "levelDay textPlanMap globalBackgroundLevel commitsPerPixel scrapedExisting d =
     (let dateStr = formatDate d;
          existing = (case scrapedExisting dateStr of Some n \<Rightarrow> n | None \<Rightarrow> 0);
          textEntry = map_of textPlanMap dateStr;
          targetLevel = (case textEntry of Some _ \<Rightarrow> globalBackgroundLevel + commitsPerPixel
                         | None \<Rightarrow> globalBackgroundLevel);
          neededCommits = max 0 (targetLevel - existing)
      in if neededCommits > 0
         then [\<lparr>date = dateStr, commits = neededCommits,
                char = (case textEntry of Some e \<Rightarrow> entry_char e | None \<Rightarrow> ''bg''),
                row = (case textEntry of Some e \<Rightarrow> entry_row e | None \<Rightarrow> - 1),
                col = (case textEntry of Some e \<Rightarrow> entry_col e | None \<Rightarrow> - 1)\<rparr>]
         else [])"

function levelLoop :: "timeZone \<Rightarrow> textPlanMap \<Rightarrow> int \<Rightarrow> int \<Rightarrow> (string \<rightharpoonup> int)
    \<Rightarrow> jsdatetime \<Rightarrow> jsdatetime \<Rightarrow> plan_unit list \<Rightarrow> plan_unit list" where
  "levelLoop zone textPlanMap globalBackgroundLevel commitsPerPixel scrapedExisting d endDate plan =
     (if dateLe d endDate
      then levelLoop zone textPlanMap globalBackgroundLevel commitsPerPixel scrapedExisting
             (setDateTime zone d (getDate (fst d) + 1)) endDate
             (plan @ levelDay textPlanMap globalBackgroundLevel commitsPerPixel scrapedExisting (fst d))
      else plan)"
  by pat_completeness auto
termination
  by (relation "measure (\<lambda>(zone, textPlanMap, B, P, E, d, endDate, plan). nat (fst endDate + 1 - fst d))")
     (auto simp: setDate_getDate setDateTime_def dateLe_def)

declare levelLoop.simps [simp del]

text \<open>
  \<open>Array.prototype.sort\<close> with a comparison function is a stable sort: insertion
  sort, where an element goes before the first element it does not exceed.
\<close>

fun insertBy :: "('a \<Rightarrow> 'a \<Rightarrow> int) \<Rightarrow> 'a \<Rightarrow> 'a list \<Rightarrow> 'a list" where
  "insertBy cmp x [] = [x]"
| "insertBy cmp x (y # ys) = (if cmp x y \<le> 0 then x # y # ys else y # insertBy cmp x ys)"

definition sortBy :: "('a \<Rightarrow> 'a \<Rightarrow> int) \<Rightarrow> 'a list \<Rightarrow> 'a list" where
  "sortBy cmp xs = foldr (insertBy cmp) xs []"

text \<open>
  The second half of \<open>generatePlan\<close>: the units pushed to \<open>plan\<close> before sorting.
\<close>

definition emitPlan :: "timeZone \<Rightarrow> textPlanMap \<Rightarrow> int \<Rightarrow> int \<Rightarrow> int option \<Rightarrow> (string \<rightharpoonup> int)
    \<Rightarrow> plan_unit list" where
  "emitPlan zone textPlanMap year commitsPerPixel globalBackgroundLevel scrapedExisting =
     (case globalBackgroundLevel of
        Some level \<Rightarrow>
          (let startDate = newDateTime zone year 0 1; endDate = newDateTime zone year 11 31
           in levelLoop zone textPlanMap level commitsPerPixel scrapedExisting startDate endDate [])
      | None \<Rightarrow>
          map (\<lambda>(dateStr, entry). \<lparr>date = entry_date entry, commits = commitsPerPixel,
                 char = entry_char entry, row = entry_row entry, col = entry_col entry\<rparr>) textPlanMap)"

text \<open>
  \<open>generatePlan(text, year, commitsPerPixel, startWeek, globalBackgroundLevel,
  scrapedExisting)\<close>, with the font table and the time zone of the process as
  parameters. The default values of the JavaScript parameters are passed explicitly;
  \<open>null\<close> is \<open>None\<close>. The result is the plan together with the warnings, or the
  exception.
\<close>

definition generatePlan :: "fontTable \<Rightarrow> timeZone \<Rightarrow> string \<Rightarrow> int \<Rightarrow> int \<Rightarrow> int \<Rightarrow> int option
    \<Rightarrow> (string \<rightharpoonup> int) \<Rightarrow> error + plan_unit list \<times> warning list" where
  "generatePlan FONT zone text year commitsPerPixel startWeek globalBackgroundLevel scrapedExisting =
     (let graphStart = getGraphStartDate year;
          upperText = toUpperCase text
      in case layout FONT graphStart year startWeek [] [] upperText of
           Inl e \<Rightarrow> Inl e
         | Inr (textPlanMap, warnings) \<Rightarrow>
             Inr (sortBy (\<lambda>a b. localeCompare (date a) (date b))
                    (emitPlan zone textPlanMap year commitsPerPixel globalBackgroundLevel scrapedExisting),
                  warnings))"

section \<open>Tracker (tracker.js)\<close>

text \<open>
  One ledger entry is \<open>{ commits, completedAt }\<close>; the tracker object is
  \<open>{ completed, lastRun, text, year }\<close>. The field \<open>commits\<close> of a ledger entry is
  named \<open>ledger_commits\<close> here, the fields \<open>text\<close> and \<open>year\<close> are named
  \<open>tracker_text\<close> and \<open>tracker_year\<close>.
\<close>

record completed_entry =
  ledger_commits :: int
  completedAt :: string

record tracker =
  completed :: "string \<rightharpoonup> completed_entry"
  lastRun :: "string option"
  tracker_text :: "string option"
  tracker_year :: "int option"

text \<open>
  The state of \<open>commits.json\<close> in the data directory: the file does not exist, it exists
  but \<open>JSON.parse\<close> throws on it, or it holds a tracker object written by
  \<open>saveTracker\<close>.
\<close>

datatype tracker_file = Missing | Unreadable | Stored tracker

definition emptyTracker :: tracker where
  "emptyTracker = \<lparr>completed = Map.empty, lastRun = None, tracker_text = None, tracker_year = None\<rparr>"

fun loadTracker :: "tracker_file \<Rightarrow> tracker" where
  "loadTracker Missing = emptyTracker"
| "loadTracker Unreadable = emptyTracker"
| "loadTracker (Stored data) = data"

definition saveTracker :: "tracker \<Rightarrow> tracker_file" where
  "saveTracker data = Stored data"

text \<open>
  \<open>markCompleted(date, commits, dataDir)\<close>. The two calls of
  \<open>new Date().toISOString()\<close> are the parameters \<open>now1\<close> and \<open>now2\<close>; the result
  is the new state of the file.
\<close>

definition markCompleted :: "string \<Rightarrow> int \<Rightarrow> string \<Rightarrow> string \<Rightarrow> tracker_file \<Rightarrow> tracker_file" where
  "markCompleted d n now1 now2 dataDir =
     (let data = loadTracker dataDir;
          data1 = data\<lparr>completed := (completed data)(d \<mapsto> \<lparr>ledger_commits = n, completedAt = now1\<rparr>)\<rparr>;
          data2 = data1\<lparr>lastRun := Some now2\<rparr>
      in saveTracker data2)"

text \<open>
  \<open>data.completed[entry.date] ? data.completed[entry.date].commits : 0\<close>: a ledger
  entry is an object, hence truthy whenever it is present.
\<close>

definition doneFor :: "tracker \<Rightarrow> string \<Rightarrow> int" where
  "doneFor data d = (case completed data d of Some c \<Rightarrow> ledger_commits c | None \<Rightarrow> 0)"

definition annotate :: "tracker \<Rightarrow> plan_unit \<Rightarrow> pending_unit" where
  "annotate data entry =
     (let done = doneFor data (date entry)
      in plan_unit.extend entry
           (pending_unit.fields (max 0 (commits entry - done)) done))"

definition getPending :: "plan_unit list \<Rightarrow> tracker_file \<Rightarrow> pending_unit list" where
  "getPending plan dataDir =
     (let data = loadTracker dataDir
      in filter (\<lambda>entry. pendingCommits entry > 0) (map (annotate data) plan))"

section \<open>Auxiliary notions\<close>

text \<open>
  Modelled from the spec: the font table of fonts.js is not among the sources. The spec
  states its invariant: every glyph has exactly 7 rows, and the rows of a glyph have equal
  length.
\<close>

definition wellFormedFont :: "fontTable \<Rightarrow> bool" where
  "wellFormedFont FONT \<longleftrightarrow>
     (\<forall>k matrix. FONT k = Some matrix \<longrightarrow>
        length matrix = 7 \<and> (\<forall>r \<in> set matrix. length r = length (matrix ! 0)))"

text \<open>
  What the scanning loop maintains for every entry of \<open>textPlanMap\<close>: the entry is
  stored under its own date, the date is the one of its grid cell and lies in the target
  year, the cell is inside the grid, and the character is a key of the font table other
  than the background sentinel.
\<close>

definition textEntryOk :: "fontTable \<Rightarrow> jsdate \<Rightarrow> int \<Rightarrow> int \<Rightarrow> string \<times> text_entry \<Rightarrow> bool" where
  "textEntryOk FONT graphStart year startWeek p \<longleftrightarrow>
     entry_date (snd p) = fst p \<and> isText (snd p) \<and>
     fst p = formatDate (offsetToDate graphStart (entry_col (snd p)) (entry_row (snd p))) \<and>
     getFullYear (offsetToDate graphStart (entry_col (snd p)) (entry_row (snd p))) = year \<and>
     0 \<le> entry_row (snd p) \<and> entry_row (snd p) < 7 \<and>
     startWeek \<le> entry_col (snd p) \<and> entry_col (snd p) < 53 \<and>
     FONT (entry_char (snd p)) \<noteq> None \<and> entry_char (snd p) \<noteq> ''bg''"

definition textMapOk :: "fontTable \<Rightarrow> jsdate \<Rightarrow> int \<Rightarrow> int \<Rightarrow> textPlanMap \<Rightarrow> bool" where
  "textMapOk FONT graphStart year startWeek m \<longleftrightarrow>
     distinct (map fst m) \<and> (\<forall>p \<in> set m. textEntryOk FONT graphStart year startWeek p)"

text \<open>
  The commits needed on a day and the unit pushed for it, as the leveling loop computes
  them (\<open>levelDay_eq\<close> below).
\<close>

definition neededCommits :: "textPlanMap \<Rightarrow> int \<Rightarrow> int \<Rightarrow> (string \<rightharpoonup> int) \<Rightarrow> jsdate \<Rightarrow> int" where
  "neededCommits m B P E d =
     max 0 ((case map_of m (formatDate d) of Some _ \<Rightarrow> B + P | None \<Rightarrow> B)
            - (case E (formatDate d) of Some n \<Rightarrow> n | None \<Rightarrow> 0))"

definition levelUnit :: "textPlanMap \<Rightarrow> int \<Rightarrow> int \<Rightarrow> (string \<rightharpoonup> int) \<Rightarrow> jsdate \<Rightarrow> plan_unit" where
  "levelUnit m B P E d =
     \<lparr>date = formatDate d, commits = neededCommits m B P E d,
      char = (case map_of m (formatDate d) of Some e \<Rightarrow> entry_char e | None \<Rightarrow> ''bg''),
      row = (case map_of m (formatDate d) of Some e \<Rightarrow> entry_row e | None \<Rightarrow> - 1),
      col = (case map_of m (formatDate d) of Some e \<Rightarrow> entry_col e | None \<Rightarrow> - 1)\<rparr>"

text \<open>
  The days the leveling loop visits, in the order of the visits.
\<close>

function loopDays :: "timeZone \<Rightarrow> jsdatetime \<Rightarrow> jsdatetime \<Rightarrow> jsdate list" where
  "loopDays zone d endDate =
     (if dateLe d endDate
      then fst d # loopDays zone (setDateTime zone d (getDate (fst d) + 1)) endDate
      else [])"
  by pat_completeness auto
termination
  by (relation "measure (\<lambda>(zone, d, endDate). nat (fst endDate + 1 - fst d))")
     (auto simp: setDate_getDate setDateTime_def dateLe_def)

declare loopDays.simps [simp del]

definition planOf :: "error + plan_unit list \<times> warning list \<Rightarrow> plan_unit list" where
  "planOf r = (case r of Inl e \<Rightarrow> [] | Inr p \<Rightarrow> fst p)"

text \<open>
  A small font table, two time zones and two plan units, for concrete instances of the
  theorems. \<open>noClockChange\<close> is a zone without clock changes (UTC);
  \<open>santiago2026\<close> has the clock change of America/Santiago in 2026, from 00:00 to
  01:00 on Sunday 6 September.
\<close>

definition noClockChange :: timeZone where
  "noClockChange = (\<lambda>day. (0, 0))"

definition santiago2026 :: timeZone where
  "santiago2026 = (\<lambda>day. if day = newDate 2026 8 6 then (0, 3600000) else (0, 0))"

definition glyphI :: glyph where
  "glyphI = [[1,1,1],[0,1,0],[0,1,0],[0,1,0],[0,1,0],[0,1,0],[1,1,1]]"

definition glyphHeart :: glyph where
  "glyphHeart = [[0,1,0,1,0],[1,1,1,1,1],[1,1,1,1,1],[1,1,1,1,1],[0,1,1,1,0],[0,0,1,0,0],[0,0,0,0,0]]"

definition demoFont :: fontTable where
  "demoFont = [''I'' \<mapsto> glyphI, ''<3'' \<mapsto> glyphHeart]"

definition unitA :: plan_unit where
  "unitA = \<lparr>date = ''2026-01-03'', commits = 20, char = ''I'', row = 6, col = 0\<rparr>"

definition unitB :: plan_unit where
  "unitB = \<lparr>date = ''2026-01-04'', commits = 20, char = ''I'', row = 0, col = 1\<rparr>"

section \<open>Properties of dates and date strings\<close>

lemma digitChar_zero: "digitChar 0 = CHR ''0''"
  unfolding digitChar_def by code_simp

lemma of_char_digitChar: "n < 10 \<Longrightarrow> of_char (digitChar n) = 48 + n"
  unfolding digitChar_def by (simp add: take_bit_nat_eq_self)

lemma digitChar_inj:
  assumes "a < 10" and "b < 10" and "digitChar a = digitChar b"
  shows "a = b"
proof -
  have "of_char (digitChar a) = (of_char (digitChar b) :: nat)" by (simp only: assms(3))
  then have "48 + a = 48 + b" by (simp only: of_char_digitChar [OF assms(1)] of_char_digitChar [OF assms(2)])
  then show ?thesis by simp
qed

lemma two_digits:
  assumes "0 \<le> n" and "n < 100"
  shows "padStart2 (numberToString n) = [digitChar (nat n div 10), digitChar (nat n mod 10)]"
proof (cases "nat n < 10")
  case True
  then have "showNat (nat n) = [digitChar (nat n)]" by (simp add: showNat.simps)
  then show ?thesis using assms True by (simp add: padStart2_def numberToString_def digitChar_zero)
next
  case False
  then have "nat n div 10 < 10" using assms by simp
  then have "showNat (nat n div 10) = [digitChar (nat n div 10)]" by (simp add: showNat.simps)
  then have "showNat (nat n) = [digitChar (nat n div 10), digitChar (nat n mod 10)]"
    using False by (simp add: showNat.simps [of "nat n"])
  then show ?thesis using assms by (simp add: padStart2_def numberToString_def)
qed

lemma two_digits_inj:
  assumes "0 \<le> a" "a < 100" "0 \<le> b" "b < 100"
    and "padStart2 (numberToString a) = padStart2 (numberToString b)"
  shows "a = b"
proof -
  have "digitChar (nat a div 10) = digitChar (nat b div 10)" "digitChar (nat a mod 10) = digitChar (nat b mod 10)"
    using assms by (simp_all add: two_digits)
  then have "nat a div 10 = nat b div 10" "nat a mod 10 = nat b mod 10"
    using assms by (auto intro!: digitChar_inj)
  then have "nat a = nat b" by (metis div_mult_mod_eq)
  then show ?thesis using assms by simp
qed

lemma formatDate_shape:
  "formatDate d = numberToString (getFullYear d) @ [CHR ''-'',
      digitChar (nat (getMonth d + 1) div 10), digitChar (nat (getMonth d + 1) mod 10), CHR ''-'',
      digitChar (nat (getDate d) div 10), digitChar (nat (getDate d) mod 10)]"
proof -
  have m: "0 \<le> getMonth d + 1" "getMonth d + 1 < 100" using getMonth_range [of d] by simp_all
  have dd: "0 \<le> getDate d" "getDate d < 100" using getDate_range [of d] by simp_all
  show ?thesis
    unfolding formatDate_def Let_def two_digits [OF m] two_digits [OF dd] by simp
qed

lemma formatDate_inj_year:
  assumes y: "getFullYear d1 = getFullYear d2" and f: "formatDate d1 = formatDate d2"
  shows "d1 = d2"
proof -
  have m1: "0 \<le> getMonth d1 + 1" "getMonth d1 + 1 < 100" using getMonth_range [of d1] by simp_all
  have m2: "0 \<le> getMonth d2 + 1" "getMonth d2 + 1 < 100" using getMonth_range [of d2] by simp_all
  have e1: "0 \<le> getDate d1" "getDate d1 < 100" using getDate_range [of d1] by simp_all
  have e2: "0 \<le> getDate d2" "getDate d2 < 100" using getDate_range [of d2] by simp_all
  have "padStart2 (numberToString (getMonth d1 + 1)) = padStart2 (numberToString (getMonth d2 + 1))"
    and "padStart2 (numberToString (getDate d1)) = padStart2 (numberToString (getDate d2))"
    using f unfolding formatDate_shape two_digits [OF m1] two_digits [OF m2]
      two_digits [OF e1] two_digits [OF e2] by simp_all
  then have "getMonth d1 + 1 = getMonth d2 + 1" and dd: "getDate d1 = getDate d2"
    using two_digits_inj [OF m1 m2] two_digits_inj [OF e1 e2] by blast+
  then have "getMonth d1 = getMonth d2" by simp
  then show ?thesis using y dd date_decompose [of d1] date_decompose [of d2] by simp
qed

lemma showNat_small: "n < 10 \<Longrightarrow> showNat n = [digitChar n]"
  by (simp add: showNat.simps)

lemma showNat_big: "\<not> n < 10 \<Longrightarrow> showNat n = showNat (n div 10) @ [digitChar (n mod 10)]"
  by (subst showNat.simps) simp

lemma showNat_nonempty: "showNat n \<noteq> []"
  by (cases "n < 10") (simp_all add: showNat_small showNat_big)

lemma showNat_length_one: "length (showNat n) = 1 \<longleftrightarrow> n < 10"
proof (cases "n < 10")
  case True
  then show ?thesis by (simp add: showNat_small)
next
  case False
  have "length (showNat (n div 10)) \<noteq> 0" using showNat_nonempty by simp
  then show ?thesis using False by (simp add: showNat_big)
qed

lemma showNat_inj: "showNat a = showNat b \<Longrightarrow> a = b"
proof (induction a arbitrary: b rule: showNat.induct)
  case (1 n)
  show ?case
  proof (cases "n < 10")
    case True
    then have "length (showNat b) = 1" using "1.prems" showNat_length_one [of n] by simp
    then have b: "b < 10" using showNat_length_one [of b] by simp
    then have "digitChar n = digitChar b" using "1.prems" True by (simp add: showNat_small)
    then show ?thesis by (rule digitChar_inj [OF True b])
  next
    case False
    then have "length (showNat b) \<noteq> 1" using "1.prems" showNat_length_one [of n] by simp
    then have b: "\<not> b < 10" using showNat_length_one [of b] by simp
    have "showNat (n div 10) @ [digitChar (n mod 10)] = showNat (b div 10) @ [digitChar (b mod 10)]"
      using "1.prems" showNat_big [OF False] showNat_big [OF b] by simp
    then have e: "showNat (n div 10) = showNat (b div 10)" and d: "digitChar (n mod 10) = digitChar (b mod 10)"
      by simp_all
    have "n div 10 = b div 10" by (rule "1.IH" [OF False e])
    moreover have "n mod 10 = b mod 10" by (rule digitChar_inj [OF _ _ d]) simp_all
    ultimately show ?thesis by (metis div_mult_mod_eq)
  qed
qed

lemma digitChar_not_minus: "n < 10 \<Longrightarrow> digitChar n \<noteq> CHR ''-''"
proof
  assume n: "n < 10" and "digitChar n = CHR ''-''"
  then have "of_char (digitChar n) = (of_char CHR ''-'' :: nat)" by simp
  then show False using of_char_digitChar [OF n] by simp
qed

lemma hd_showNat: "hd (showNat n) \<noteq> CHR ''-''"
proof (induction n rule: showNat.induct)
  case (1 n)
  show ?case
  proof (cases "n < 10")
    case True
    then show ?thesis by (simp add: showNat_small digitChar_not_minus)
  next
    case False
    then show ?thesis using "1.IH" [OF False] showNat_nonempty [of "n div 10"]
      by (simp add: showNat_big)
  qed
qed

lemma numberToString_inj: "numberToString a = numberToString b \<Longrightarrow> a = b"
proof -
  assume e: "numberToString a = numberToString b"
  consider "a < 0" "b < 0" | "a < 0" "\<not> b < 0" | "\<not> a < 0" "b < 0" | "\<not> a < 0" "\<not> b < 0"
    by argo
  then show "a = b"
  proof cases
    case 1
    then have "showNat (nat (- a)) = showNat (nat (- b))" using e by (simp add: numberToString_def)
    then have "nat (- a) = nat (- b)" by (rule showNat_inj)
    then show ?thesis using 1 by simp
  next
    case 2
    then have "hd (showNat (nat b)) = CHR ''-''" using e by (simp add: numberToString_def) (metis list.sel(1))
    then show ?thesis using hd_showNat by simp
  next
    case 3
    then have "hd (showNat (nat a)) = CHR ''-''" using e by (simp add: numberToString_def)
    then show ?thesis using hd_showNat by simp
  next
    case 4
    then have "showNat (nat a) = showNat (nat b)" using e by (simp add: numberToString_def)
    then have "nat a = nat b" by (rule showNat_inj)
    then show ?thesis using 4 by simp
  qed
qed

lemma formatDate_inj: "formatDate a = formatDate b \<Longrightarrow> a = b"
proof -
  assume e: "formatDate a = formatDate b"
  then have "numberToString (getFullYear a) = numberToString (getFullYear b)"
    unfolding formatDate_shape by simp
  then have "getFullYear a = getFullYear b" by (rule numberToString_inj)
  then show "a = b" using e by (rule formatDate_inj_year)
qed

lemma newDate_jan1: "newDate y 0 1 = dayFromYear (dateYear y)"
  by (simp add: newDate_def makeDay_def monthStart_def)

lemma newDate_dec31: "newDate y 11 31 = dayFromYear (dateYear y + 1) - 1"
  by (simp add: newDate_def makeDay_def monthStart_def dayFromYear_step daysInYear_def leapDays_def)

lemma year_days: "d \<in> set [newDate y 0 1..newDate y 11 31] \<longleftrightarrow> getFullYear d = dateYear y"
  unfolding newDate_jan1 newDate_dec31 getFullYear_iff by auto

lemma getDay_range: "0 \<le> getDay d" "getDay d < 7"
  by (simp_all add: getDay_def)

lemma getGraphStartDate_eq: "getGraphStartDate y = newDate y 0 1 - getDay (newDate y 0 1)"
  unfolding getGraphStartDate_def Let_def
  using setDate_getDate [of "newDate y 0 1" "- getDay (newDate y 0 1)"] by simp

lemma getDay_getGraphStartDate: "getDay (getGraphStartDate y) = 0"
proof -
  define x where "x = newDate y 0 1 + 4"
  have "getGraphStartDate y + 4 = x - x mod 7"
    unfolding getGraphStartDate_eq getDay_def x_def by simp
  also have "\<dots> = 7 * (x div 7)" by (rule minus_mod_eq_mult_div)
  finally have "(getGraphStartDate y + 4) mod 7 = (7 * (x div 7)) mod 7" by simp
  then show ?thesis unfolding getDay_def by simp
qed

lemma getGraphStartDate_anchor:
  "getGraphStartDate year \<le> newDate year 0 1" "newDate year 0 1 < getGraphStartDate year + 7"
  unfolding getGraphStartDate_eq
  using getDay_range [of "newDate year 0 1"] by simp_all

lemma offsetToDate_eq: "offsetToDate graphStart week day = graphStart + week * 7 + day"
  unfolding offsetToDate_def using setDate_getDate [of graphStart "week * 7 + day"]
  by (simp add: add.assoc)

lemma formatDate_inj_on_year: "inj_on formatDate (set [newDate year 0 1..newDate year 11 31])"
proof (rule inj_onI)
  fix a b
  assume "a \<in> set [newDate year 0 1..newDate year 11 31]"
    and "b \<in> set [newDate year 0 1..newDate year 11 31]" and f: "formatDate a = formatDate b"
  then have "getFullYear a = getFullYear b" unfolding year_days by simp
  then show "a = b" using f by (rule formatDate_inj_year)
qed

section \<open>Properties of the sort\<close>

lemma localeCompare_refl: "localeCompare a a = 0"
  by (induction a) simp_all


lemma localeCompare_range: "localeCompare a b = - 1 \<or> localeCompare a b = 0 \<or> localeCompare a b = 1"
  by (induction a b rule: localeCompare.induct) simp_all

lemma localeCompare_eq: "localeCompare a b = 0 \<Longrightarrow> a = b"
  by (induction a b rule: localeCompare.induct) (simp_all split: if_splits)




lemma set_insertBy: "set (insertBy cmp x xs) = insert x (set xs)"
  by (induction xs) auto

lemma set_sortBy: "set (sortBy cmp xs) = set xs"
  unfolding sortBy_def by (induction xs) (simp_all add: set_insertBy)

lemma length_insertBy: "length (insertBy cmp x xs) = Suc (length xs)"
  by (induction xs) auto

lemma length_sortBy: "length (sortBy cmp xs) = length xs"
  unfolding sortBy_def by (induction xs) (simp_all add: length_insertBy)






section \<open>Properties of the scanning loop\<close>

lemma update_member:
  "p \<in> set (AList.update k v al) \<Longrightarrow> p = (k, v) \<or> p \<in> set al"
  by (induction al) (auto split: if_splits)

lemma foldE_inv:
  assumes "foldE f xs s = Inr s'" and "P s"
    and "\<And>x t t'. x \<in> set xs \<Longrightarrow> P t \<Longrightarrow> f x t = Inr t' \<Longrightarrow> P t'"
  shows "P s'"
  using assms
proof (induction xs arbitrary: s)
  case Nil
  then show ?case by simp
next
  case (Cons x xs)
  from Cons.prems(1) obtain t where t: "f x s = Inr t" and r: "foldE f xs t = Inr s'"
    by (auto split: sum.splits)
  have "P t" using Cons.prems(3) [of x s t] Cons.prems(2) t by simp
  show ?case by (rule Cons.IH [OF r \<open>P t\<close>]) (use Cons.prems(3) in auto)
qed

lemma foldE_total:
  assumes "\<And>x t. x \<in> set xs \<Longrightarrow> \<exists>t'. f x t = Inr t'"
  shows "\<exists>s'. foldE f xs s = Inr s'"
  using assms
proof (induction xs arbitrary: s)
  case Nil
  show ?case by simp
next
  case (Cons x xs)
  obtain t where t: "f x s = Inr t" using Cons.prems [of x s] by auto
  have "\<exists>s'. foldE f xs t = Inr s'" using Cons.IH Cons.prems by simp
  then show ?case using t by simp
qed

lemma nextKey_not_bg: "fst (nextKey c cs) \<noteq> ''bg''"
  by (simp add: nextKey_def)

lemma setPixel_ok:
  assumes m: "textMapOk FONT graphStart year startWeek m"
    and f: "FONT charKey \<noteq> None" and k: "charKey \<noteq> ''bg''"
    and r: "r < 7" and lo: "startWeek \<le> currentWeek" and hi: "currentWeek + int c < 53"
  shows "textMapOk FONT graphStart year startWeek (setPixel graphStart year charKey currentWeek r c m)"
proof (cases "getFullYear (offsetToDate graphStart (currentWeek + int c) (int r)) = year")
  case False
  then show ?thesis using m by (simp add: setPixel_def Let_def)
next
  case True
  let ?k = "formatDate (offsetToDate graphStart (currentWeek + int c) (int r))"
  let ?e = "\<lparr>entry_date = ?k, isText = True, entry_char = charKey,
             entry_row = int r, entry_col = currentWeek + int c\<rparr>"
  have s: "setPixel graphStart year charKey currentWeek r c m = AList.update ?k ?e m"
    using True by (simp add: setPixel_def Let_def)
  have e: "textEntryOk FONT graphStart year startWeek (?k, ?e)"
    using True f k r lo hi by (simp add: textEntryOk_def)
  have d: "distinct (map fst (AList.update ?k ?e m))"
    using m by (simp add: textMapOk_def distinct_update)
  have "\<forall>p \<in> set (AList.update ?k ?e m). textEntryOk FONT graphStart year startWeek p"
    using update_member [of _ ?k ?e m] e m unfolding textMapOk_def by blast
  with d show ?thesis unfolding s textMapOk_def by simp
qed

lemma placeGlyph_ok:
  assumes p: "placeGlyph matrix charWidth graphStart year charKey currentWeek m = Inr m'"
    and m: "textMapOk FONT graphStart year startWeek m"
    and f: "FONT charKey \<noteq> None" and k: "charKey \<noteq> ''bg''"
    and lo: "startWeek \<le> currentWeek" and hi: "currentWeek + int charWidth \<le> 53"
  shows "textMapOk FONT graphStart year startWeek m'"
proof (rule foldE_inv [OF p [unfolded placeGlyph_def], where P = "textMapOk FONT graphStart year startWeek"])
  show "textMapOk FONT graphStart year startWeek m" by fact
next
  fix x t t'
  assume x: "x \<in> set (List.product [0..<7] [0..<charWidth])"
    and t: "textMapOk FONT graphStart year startWeek t"
    and s: "pixelStep matrix graphStart year charKey currentWeek x t = Inr t'"
  have b: "fst x < 7" "currentWeek + int (snd x) < 53" using x hi by auto
  have "t' = t \<or> t' = setPixel graphStart year charKey currentWeek (fst x) (snd x) t"
    using s by (auto simp: pixelStep_def split: sum.splits if_splits)
  then show "textMapOk FONT graphStart year startWeek t'"
    using t setPixel_ok [OF t f k b(1) lo b(2)] by auto
qed

lemma placeGlyph_total:
  assumes "length matrix = 7"
  shows "\<exists>m'. placeGlyph matrix charWidth graphStart year charKey currentWeek m = Inr m'"
  unfolding placeGlyph_def
proof (rule foldE_total)
  fix x :: "nat \<times> nat" and t
  assume "x \<in> set (List.product [0..<7] [0..<charWidth])"
  then have "fst x < length matrix" using assms by auto
  then show "\<exists>t'. pixelStep matrix graphStart year charKey currentWeek x t = Inr t'"
    by (simp add: pixelStep_def cell_def)
qed

lemma layout_ok:
  assumes "layout FONT graphStart year currentWeek m ws s = Inr (m', ws')"
    and "textMapOk FONT graphStart year startWeek m" and "startWeek \<le> currentWeek"
  shows "textMapOk FONT graphStart year startWeek m'"
  using assms
proof (induction FONT graphStart year currentWeek m ws s rule: layout.induct)
  case (1 FONT graphStart year currentWeek textPlanMap warnings)
  then show ?case by simp
next
  case (2 FONT graphStart year currentWeek textPlanMap warnings c cs)
  let ?key = "fst (nextKey c cs)" and ?rest = "snd (nextKey c cs)"
  show ?case
  proof (cases "FONT ?key")
    case None
    then have "layout FONT graphStart year currentWeek textPlanMap (warnings @ [CharNotFound ?key]) ?rest
        = Inr (m', ws')"
      using "2.prems"(1) by (simp add: Let_def)
    then show ?thesis using "2.IH"(1) [OF refl refl None] "2.prems"(2,3) by simp
  next
    case (Some matrix)
    then obtain row0 rows where mx: "matrix = row0 # rows"
      using "2.prems"(1) by (cases matrix) (simp_all add: Let_def)
    show ?thesis
    proof (cases "currentWeek + int (length row0) > 53")
      case True
      then have "m' = textPlanMap" using "2.prems"(1) Some mx by (simp add: Let_def)
      then show ?thesis using "2.prems"(2) by simp
    next
      case False
      from "2.prems"(1) Some mx False obtain m1 where
        p: "placeGlyph matrix (length row0) graphStart year ?key currentWeek textPlanMap = Inr m1"
        and l: "layout FONT graphStart year (currentWeek + int (length row0) + 1) m1 warnings ?rest = Inr (m', ws')"
        by (auto simp: Let_def split: sum.splits)
      have ok1: "textMapOk FONT graphStart year startWeek m1"
        using placeGlyph_ok [OF p "2.prems"(2) _ nextKey_not_bg "2.prems"(3)] Some False by simp
      have lo1: "startWeek \<le> currentWeek + int (length row0) + 1" using "2.prems"(3) by simp
      show ?thesis
        by (rule "2.IH"(2) [OF refl refl Some mx refl False p l ok1 lo1])
    qed
  qed
qed

lemma layout_total:
  assumes "wellFormedFont FONT"
  shows "\<exists>r. layout FONT graphStart year currentWeek m ws s = Inr r"
  using assms
proof (induction FONT graphStart year currentWeek m ws s rule: layout.induct)
  case (1 FONT graphStart year currentWeek textPlanMap warnings)
  show ?case by simp
next
  case (2 FONT graphStart year currentWeek textPlanMap warnings c cs)
  let ?key = "fst (nextKey c cs)" and ?rest = "snd (nextKey c cs)"
  show ?case
  proof (cases "FONT ?key")
    case None
    then show ?thesis using "2.IH"(1) [OF refl refl None "2.prems"] by (simp add: Let_def)
  next
    case (Some matrix)
    then have len: "length matrix = 7" using "2.prems" by (simp add: wellFormedFont_def)
    then obtain row0 rows where mx: "matrix = row0 # rows" by (cases matrix) simp_all
    show ?thesis
    proof (cases "currentWeek + int (length row0) > 53")
      case True
      then show ?thesis using Some mx by (simp add: Let_def)
    next
      case False
      obtain m1 where
        p: "placeGlyph matrix (length row0) graphStart year ?key currentWeek textPlanMap = Inr m1"
        using placeGlyph_total [OF len] by blast
      have "\<exists>r. layout FONT graphStart year (currentWeek + int (length row0) + 1) m1 warnings ?rest = Inr r"
        by (rule "2.IH"(2) [OF refl refl Some mx refl False p "2.prems"])
      then show ?thesis using Some mx False p by (simp add: Let_def)
    qed
  qed
qed

text \<open>
  The scanning loop only appends to the warnings: its result with the warnings \<open>ws\<close>
  so far is its result from no warnings, with \<open>ws\<close> in front.
\<close>

lemma layout_warnings_all:
  "\<forall>ws. layout FONT graphStart year currentWeek m ws s =
     (case layout FONT graphStart year currentWeek m [] s of
        Inl e \<Rightarrow> Inl e
      | Inr r \<Rightarrow> Inr (fst r, ws @ snd r))"
proof (rule layout.induct [of "\<lambda>F g y cw m w s. \<forall>ws. layout F g y cw m ws s =
     (case layout F g y cw m [] s of Inl e \<Rightarrow> Inl e | Inr r \<Rightarrow> Inr (fst r, ws @ snd r))"
     FONT graphStart year currentWeek m "[]" s], goal_cases)
  case (1 F g y cw m w)
  show ?case by simp
next
  case (2 F g y cw m w c cs)
  let ?key = "fst (nextKey c cs)" and ?rest = "snd (nextKey c cs)"
  show ?case
  proof
    fix ws
    show "layout F g y cw m ws (c # cs) =
       (case layout F g y cw m [] (c # cs) of Inl e \<Rightarrow> Inl e | Inr r \<Rightarrow> Inr (fst r, ws @ snd r))"
    proof (cases "F ?key")
      case None
      have a: "layout F g y cw m ws (c # cs) = layout F g y cw m (ws @ [CharNotFound ?key]) ?rest"
        and b: "layout F g y cw m [] (c # cs) = layout F g y cw m [CharNotFound ?key] ?rest"
        using None by (simp_all add: Let_def)
      note ih = 2(1) [OF refl refl None, rule_format]
      show ?thesis
        unfolding a b
        by (subst ih [of "ws @ [CharNotFound ?key]"], subst ih [of "[CharNotFound ?key]"])
           (simp split: sum.splits)
    next
      case (Some matrix)
      show ?thesis
      proof (cases matrix)
        case Nil
        then show ?thesis using Some by (simp add: Let_def)
      next
        case (Cons row0 rows)
        show ?thesis
        proof (cases "cw + int (length row0) > 53")
          case True
          then show ?thesis using Some Cons by (simp add: Let_def)
        next
          case False
          show ?thesis
          proof (cases "placeGlyph matrix (length row0) g y ?key cw m")
            case (Inl e)
            then show ?thesis using Some Cons False by (simp add: Let_def)
          next
            case (Inr m1)
            have a: "layout F g y cw m ws (c # cs) = layout F g y (cw + int (length row0) + 1) m1 ws ?rest"
              and b: "layout F g y cw m [] (c # cs) = layout F g y (cw + int (length row0) + 1) m1 [] ?rest"
              using Some Cons False Inr by (simp_all add: Let_def)
            note ih = 2(2) [OF refl refl Some Cons refl False Inr, rule_format]
            show ?thesis unfolding a b by (rule ih)
          qed
        qed
      qed
    qed
  qed
qed

lemma layout_warnings:
  "layout FONT graphStart year currentWeek m ws s =
     (case layout FONT graphStart year currentWeek m [] s of
        Inl e \<Rightarrow> Inl e
      | Inr r \<Rightarrow> Inr (fst r, ws @ snd r))"
  using layout_warnings_all by blast

lemma textMapOk_empty: "textMapOk FONT graphStart year startWeek []"
  by (simp add: textMapOk_def)

lemma textMapOk_lookup:
  assumes "textMapOk FONT graphStart year startWeek m" and "map_of m k = Some e"
  shows "textEntryOk FONT graphStart year startWeek (k, e)"
  using assms map_of_SomeD [OF assms(2)] by (auto simp: textMapOk_def)

section \<open>Properties of the emission\<close>

lemma levelLoop_loopDays:
  "levelLoop zone m B P E d endDate plan =
     plan @ concat (map (levelDay m B P E) (loopDays zone d endDate))"
proof (induction zone m B P E d endDate plan rule: levelLoop.induct)
  case (1 zone m B P E d endDate plan)
  show ?case
  proof (cases "dateLe d endDate")
    case True
    have "levelLoop zone m B P E d endDate plan =
        levelLoop zone m B P E (setDateTime zone d (getDate (fst d) + 1)) endDate
          (plan @ levelDay m B P E (fst d))"
      using True by (subst levelLoop.simps) simp
    also have "\<dots> = (plan @ levelDay m B P E (fst d))
        @ concat (map (levelDay m B P E) (loopDays zone (setDateTime zone d (getDate (fst d) + 1)) endDate))"
      by (rule "1.IH" [OF True])
    also have "\<dots> = plan @ concat (map (levelDay m B P E) (loopDays zone d endDate))"
      using True by (subst (2) loopDays.simps) simp
    finally show ?thesis .
  next
    case False
    then show ?thesis by (subst levelLoop.simps, subst loopDays.simps) simp
  qed
qed

lemma loopDays_step:
  assumes "fst d < fst e"
  shows "loopDays zone d e = fst d # loopDays zone (fst d + 1, localTime zone (fst d + 1) (snd d)) e"
  using assms by (subst loopDays.simps) (simp add: dateLe_def setDateTime_def setDate_getDate)

lemma loopDays_past: "fst e < fst d \<Longrightarrow> loopDays zone d e = []"
  by (subst loopDays.simps) (simp add: dateLe_def)

lemma loopDays_last:
  assumes "fst d = fst e"
  shows "loopDays zone d e = (if snd d \<le> snd e then [fst d] else [])"
proof (cases "snd d \<le> snd e")
  case True
  have "loopDays zone (setDateTime zone d (getDate (fst d) + 1)) e = []"
    by (rule loopDays_past) (simp add: setDateTime_def setDate_getDate assms [symmetric])
  then show ?thesis using True assms by (subst loopDays.simps) (simp add: dateLe_def)
next
  case False
  then show ?thesis using assms by (subst loopDays.simps) (simp add: dateLe_def)
qed



text \<open>
  As long as the time of day of \<open>d\<close> is not moved by a clock change and the end is
  not reached, the loop visits one day after the other.
\<close>

lemma loopDays_run:
  assumes "day \<le> j" and "j < fst e"
    and "\<forall>k. day < k \<and> k \<le> j \<longrightarrow> localTime zone k tod = tod"
  shows "loopDays zone (day, tod) e = [day..j] @ loopDays zone (j + 1, localTime zone (j + 1) tod) e"
  using assms
proof (induction j rule: int_ge_induct)
  case base
  then show ?case using loopDays_step [of "(day, tod)" e zone] by simp
next
  case (step i)
  have s: "localTime zone (i + 1) tod = tod" using step.prems step.hyps by simp
  have "loopDays zone (day, tod) e = [day..i] @ loopDays zone (i + 1, localTime zone (i + 1) tod) e"
    using step by simp
  also have "\<dots> = [day..i] @ loopDays zone (i + 1, tod) e" by (simp only: s)
  also have "loopDays zone (i + 1, tod) e
      = (i + 1) # loopDays zone (i + 1 + 1, localTime zone (i + 1 + 1) tod) e"
    using loopDays_step [of "(i + 1, tod)" e zone] step.prems by simp
  finally show ?case using step.hyps by (simp add: upto_rec2 [of day "i + 1"])
qed

text \<open>
  In a zone where no local midnight of the year is skipped the loop visits every day of
  the year, from 1 January to 31 December.
\<close>

lemma newDate_year_length: "newDate y 0 1 + 364 \<le> newDate y 11 31"
  unfolding newDate_jan1 newDate_dec31
  using dayFromYear_step [of "dateYear y"] daysInYear_pos [of "dateYear y"] by linarith

lemma loopDays_regular:
  assumes "\<forall>d. getFullYear d = dateYear year \<longrightarrow> localTime zone d 0 = 0"
  shows "loopDays zone (newDateTime zone year 0 1) (newDateTime zone year 11 31)
      = [newDate year 0 1..newDate year 11 31]"
proof -
  let ?a = "newDate year 0 1" and ?b = "newDate year 11 31"
  have ab: "?a \<le> ?b - 1" using newDate_year_length [of year] by simp
  have reg: "localTime zone k 0 = 0" if "?a \<le> k" "k \<le> ?b" for k
  proof -
    have "k \<in> set [?a..?b]" using that by simp
    then show ?thesis using assms unfolding year_days by simp
  qed
  have st: "newDateTime zone year 0 1 = (?a, 0)" "newDateTime zone year 11 31 = (?b, 0)"
    using reg [of ?a] reg [of ?b] ab by (simp_all add: newDateTime_def)
  have "loopDays zone (?a, 0) (?b, 0)
      = [?a..?b - 1] @ loopDays zone (?b - 1 + 1, localTime zone (?b - 1 + 1) 0) (?b, 0)"
    by (rule loopDays_run) (use ab reg in auto)
  also have "loopDays zone (?b - 1 + 1, localTime zone (?b - 1 + 1) 0) (?b, 0) = [?b]"
    using reg [of ?b] ab loopDays_last [of "(?b, 0)" "(?b, 0)" zone] by simp
  also have "[?a..?b - 1] @ [?b] = [?a..?b]"
    using ab by (simp add: upto_rec2 [of ?a ?b])
  finally show ?thesis unfolding st .
qed

lemma levelDay_eq:
  "levelDay m B P E d = (if 0 < neededCommits m B P E d then [levelUnit m B P E d] else [])"
  by (simp add: levelDay_def neededCommits_def levelUnit_def Let_def)

lemma concat_levelDay:
  "concat (map (levelDay m B P E) ds) =
     map (levelUnit m B P E) (filter (\<lambda>d. 0 < neededCommits m B P E d) ds)"
  by (induction ds) (simp_all add: levelDay_eq)

lemma emitPlan_level:
  "emitPlan zone m year P (Some B) E =
     map (levelUnit m B P E)
       (filter (\<lambda>d. 0 < neededCommits m B P E d)
          (loopDays zone (newDateTime zone year 0 1) (newDateTime zone year 11 31)))"
  by (simp add: emitPlan_def Let_def levelLoop_loopDays concat_levelDay)

lemma emitPlan_text:
  "emitPlan zone m year P None E =
     map (\<lambda>p. \<lparr>date = entry_date (snd p), commits = P, char = entry_char (snd p),
                row = entry_row (snd p), col = entry_col (snd p)\<rparr>) m"
  by (simp add: emitPlan_def case_prod_beta)




lemma generatePlan_cases:
  "generatePlan FONT zone text year P startWeek bg E =
     (case layout FONT (getGraphStartDate year) year startWeek [] [] (toUpperCase text) of
        Inl e \<Rightarrow> Inl e
      | Inr r \<Rightarrow> Inr (sortBy (\<lambda>a b. localeCompare (date a) (date b)) (emitPlan zone (fst r) year P bg E), snd r))"
  by (simp add: generatePlan_def Let_def case_prod_beta split: sum.splits)

lemma generatePlan_returns:
  assumes "wellFormedFont FONT"
  shows "\<exists>m ws. layout FONT (getGraphStartDate year) year startWeek [] [] (toUpperCase text) = Inr (m, ws)
      \<and> textMapOk FONT (getGraphStartDate year) year startWeek m
      \<and> generatePlan FONT zone text year P startWeek bg E =
          Inr (sortBy (\<lambda>a b. localeCompare (date a) (date b)) (emitPlan zone m year P bg E), ws)"
proof -
  obtain r where r: "layout FONT (getGraphStartDate year) year startWeek [] [] (toUpperCase text) = Inr r"
    using layout_total [OF assms] by blast
  obtain m ws where mw: "r = (m, ws)" by (cases r)
  have "textMapOk FONT (getGraphStartDate year) year startWeek m"
    by (rule layout_ok [OF r [unfolded mw] textMapOk_empty]) simp
  then show ?thesis using r mw by (simp add: generatePlan_cases)
qed

lemma generatePlan_total:
  assumes "wellFormedFont FONT"
  shows "\<exists>plan ws. generatePlan FONT zone text year P startWeek bg E = Inr (plan, ws)"
  using generatePlan_returns [OF assms] by blast

lemma generatePlan_result:
  assumes "generatePlan FONT zone text year P startWeek bg E = Inr (plan, ws)"
  shows "\<exists>m. layout FONT (getGraphStartDate year) year startWeek [] [] (toUpperCase text) = Inr (m, ws)
      \<and> textMapOk FONT (getGraphStartDate year) year startWeek m
      \<and> plan = sortBy (\<lambda>a b. localeCompare (date a) (date b)) (emitPlan zone m year P bg E)"
proof -
  obtain r where r: "layout FONT (getGraphStartDate year) year startWeek [] [] (toUpperCase text) = Inr r"
    using assms unfolding generatePlan_cases by (cases "layout FONT (getGraphStartDate year) year startWeek [] [] (toUpperCase text)") simp_all
  obtain m ws' where mw: "r = (m, ws')" by (cases r)
  have ok: "textMapOk FONT (getGraphStartDate year) year startWeek m"
    by (rule layout_ok [OF r [unfolded mw] textMapOk_empty]) simp
  have "plan = sortBy (\<lambda>a b. localeCompare (date a) (date b)) (emitPlan zone m year P bg E)" and "ws = ws'"
    using assms r mw by (simp_all add: generatePlan_cases)
  then show ?thesis using r mw ok by simp
qed

lemma generatePlan_empty_text:
  "generatePlan FONT zone [] year P startWeek bg E =
     Inr (sortBy (\<lambda>a b. localeCompare (date a) (date b)) (emitPlan zone [] year P bg E), [])"
  by (simp add: generatePlan_cases toUpperCase_def)

lemma emitPlan_unit:
  assumes ok: "textMapOk FONT graphStart year startWeek m" and u: "u \<in> set (emitPlan zone m year P bg E)"
  shows "(char u = ''bg'' \<and> row u = - 1 \<and> col u = - 1 \<and> bg \<noteq> None \<and> map_of m (date u) = None)
      \<or> (\<exists>e. map_of m (date u) = Some e \<and> textEntryOk FONT graphStart year startWeek (date u, e)
             \<and> char u = entry_char e \<and> row u = entry_row e \<and> col u = entry_col e)"
proof (cases bg)
  case None
  then have "u \<in> (\<lambda>p. \<lparr>date = entry_date (snd p), commits = P, char = entry_char (snd p),
                row = entry_row (snd p), col = entry_col (snd p)\<rparr>) ` set m"
    using u by (simp add: emitPlan_text)
  then obtain p where ue: "u = \<lparr>date = entry_date (snd p), commits = P, char = entry_char (snd p),
                row = entry_row (snd p), col = entry_col (snd p)\<rparr>"
    and p: "p \<in> set m"
    by (rule imageE)
  have pk: "textEntryOk FONT graphStart year startWeek p" using ok p by (simp add: textMapOk_def)
  then have d: "date u = fst p" using ue by (simp add: textEntryOk_def)
  have "map_of m (fst p) = Some (snd p)"
    using ok p by (simp add: textMapOk_def)
  then have "map_of m (date u) = Some (snd p)" using d by simp
  moreover have "textEntryOk FONT graphStart year startWeek (date u, snd p)" using pk d by simp
  ultimately show ?thesis using ue by auto
next
  case (Some B)
  then have "u \<in> set (emitPlan zone m year P (Some B) E)" using u by simp
  then obtain d where ue: "u = levelUnit m B P E d"
    unfolding emitPlan_level by auto
  show ?thesis
  proof (cases "map_of m (formatDate d)")
    case None
    then show ?thesis using ue Some by (simp add: levelUnit_def)
  next
    case (Some e)
    then have "textEntryOk FONT graphStart year startWeek (formatDate d, e)"
      by (rule textMapOk_lookup [OF ok])
    then show ?thesis using ue Some by (simp add: levelUnit_def)
  qed
qed

lemma emitPlan_commits_text: "u \<in> set (emitPlan zone m year P None E) \<Longrightarrow> commits u = P"
  unfolding emitPlan_text by auto

lemma set_emitPlan_level:
  assumes "\<forall>d. getFullYear d = dateYear year \<longrightarrow> localTime zone d 0 = 0"
  shows "set (emitPlan zone m year P (Some B) E) =
     levelUnit m B P E ` {d. getFullYear d = dateYear year \<and> 0 < neededCommits m B P E d}"
proof -
  have "{d \<in> set [newDate year 0 1..newDate year 11 31]. 0 < neededCommits m B P E d}
      = {d. getFullYear d = dateYear year \<and> 0 < neededCommits m B P E d}"
    using year_days [of _ year] by blast
  then show ?thesis unfolding emitPlan_level loopDays_regular [OF assms] by simp
qed

lemma level_units_of_day:
  assumes reg: "\<forall>d. getFullYear d = dateYear year \<longrightarrow> localTime zone d 0 = 0"
    and d: "getFullYear d = dateYear year"
  shows "(0 < neededCommits m B P E d \<longrightarrow>
            (\<exists>u \<in> set (emitPlan zone m year P (Some B) E). date u = formatDate d)
          \<and> (\<forall>u \<in> set (emitPlan zone m year P (Some B) E). date u = formatDate d \<longrightarrow>
                 commits u = neededCommits m B P E d))
      \<and> (neededCommits m B P E d \<le> 0 \<longrightarrow>
            (\<forall>u \<in> set (emitPlan zone m year P (Some B) E). date u \<noteq> formatDate d))"
proof -
  have same: "u = levelUnit m B P E d \<and> 0 < neededCommits m B P E d"
    if "u \<in> set (emitPlan zone m year P (Some B) E)" and "date u = formatDate d" for u
  proof -
    have "u \<in> levelUnit m B P E ` {d. getFullYear d = dateYear year \<and> 0 < neededCommits m B P E d}"
      using that(1) by (simp only: set_emitPlan_level [OF reg])
    then obtain d' where u: "u = levelUnit m B P E d'"
      and "d' \<in> {d. getFullYear d = dateYear year \<and> 0 < neededCommits m B P E d}"
      by (rule imageE)
    then have n: "0 < neededCommits m B P E d'" by simp
    have "formatDate d' = formatDate d" using that(2) u by (simp add: levelUnit_def)
    then have "d' = d" by (rule formatDate_inj)
    then show ?thesis using u n by simp
  qed
  have present: "levelUnit m B P E d \<in> set (emitPlan zone m year P (Some B) E)"
    if "0 < neededCommits m B P E d"
    unfolding set_emitPlan_level [OF reg] using that d by simp
  show ?thesis
  proof (intro conjI impI ballI)
    assume "0 < neededCommits m B P E d"
    then show "\<exists>u \<in> set (emitPlan zone m year P (Some B) E). date u = formatDate d"
      using present by (intro bexI [of _ "levelUnit m B P E d"]) (simp_all add: levelUnit_def)
  next
    fix u assume "u \<in> set (emitPlan zone m year P (Some B) E)" "date u = formatDate d"
    then have "u = levelUnit m B P E d" using same by blast
    then show "commits u = neededCommits m B P E d" by (simp add: levelUnit_def)
  next
    fix u assume "neededCommits m B P E d \<le> 0" "u \<in> set (emitPlan zone m year P (Some B) E)"
    then show "date u \<noteq> formatDate d" using same [of u] by auto
  qed
qed

text \<open>
  Background leveling in a zone where no local midnight of the year is skipped, for a
  year that the Date constructor takes as it is (not 0 to 99): the plan has a unit for
  a day of the year exactly when commits are needed on it, with that number of commits.
\<close>

lemma generatePlan_leveling_regular:
  assumes reg: "\<forall>d. getFullYear d = year \<longrightarrow> localTime zone d 0 = 0"
    and yr: "year < 0 \<or> 99 < year"
  shows "(wellFormedFont FONT \<longrightarrow>
           (\<exists>plan ws. generatePlan FONT zone text year P startWeek (Some B) E = Inr (plan, ws)))
     \<and> (\<forall>plan ws. generatePlan FONT zone text year P startWeek (Some B) E = Inr (plan, ws) \<longrightarrow>
          (\<exists>m. layout FONT (getGraphStartDate year) year startWeek [] [] (toUpperCase text) = Inr (m, ws)
             \<and> (\<forall>d. getFullYear d = year \<longrightarrow>
                   (0 < max 0 ((case map_of m (formatDate d) of Some e \<Rightarrow> B + P | None \<Rightarrow> B)
                               - (case E (formatDate d) of Some n \<Rightarrow> n | None \<Rightarrow> 0)) \<longrightarrow>
                      (\<exists>u \<in> set plan. date u = formatDate d)
                      \<and> (\<forall>u \<in> set plan. date u = formatDate d \<longrightarrow>
                             commits u = max 0 ((case map_of m (formatDate d) of Some e \<Rightarrow> B + P | None \<Rightarrow> B)
                                                - (case E (formatDate d) of Some n \<Rightarrow> n | None \<Rightarrow> 0))))
                   \<and> (max 0 ((case map_of m (formatDate d) of Some e \<Rightarrow> B + P | None \<Rightarrow> B)
                               - (case E (formatDate d) of Some n \<Rightarrow> n | None \<Rightarrow> 0)) \<le> 0 \<longrightarrow>
                        (\<forall>u \<in> set plan. date u \<noteq> formatDate d)))
             \<and> (\<forall>u \<in> set plan. \<exists>d. getFullYear d = year \<and> date u = formatDate d)))"
proof (intro conjI impI allI)
  assume "wellFormedFont FONT"
  then show "\<exists>plan ws. generatePlan FONT zone text year P startWeek (Some B) E = Inr (plan, ws)"
    by (rule generatePlan_total)
next
  fix plan ws
  assume g: "generatePlan FONT zone text year P startWeek (Some B) E = Inr (plan, ws)"
  obtain m where l: "layout FONT (getGraphStartDate year) year startWeek [] [] (toUpperCase text) = Inr (m, ws)"
    and p: "plan = sortBy (\<lambda>a b. localeCompare (date a) (date b)) (emitPlan zone m year P (Some B) E)"
    using generatePlan_result [OF g] by blast
  have s: "set plan = set (emitPlan zone m year P (Some B) E)" unfolding p by (rule set_sortBy)
  have y: "dateYear year = year" using yr by (auto simp: dateYear_def)
  have reg': "\<forall>d. getFullYear d = dateYear year \<longrightarrow> localTime zone d 0 = 0"
    using reg by (simp only: y)
  have days: "(0 < neededCommits m B P E d \<longrightarrow>
            (\<exists>u \<in> set plan. date u = formatDate d)
          \<and> (\<forall>u \<in> set plan. date u = formatDate d \<longrightarrow> commits u = neededCommits m B P E d))
      \<and> (neededCommits m B P E d \<le> 0 \<longrightarrow> (\<forall>u \<in> set plan. date u \<noteq> formatDate d))"
    if "getFullYear d = year" for d
    unfolding s by (rule level_units_of_day [OF reg']) (simp add: y that)
  have all: "\<exists>d. getFullYear d = year \<and> date u = formatDate d" if "u \<in> set plan" for u
  proof -
    have "u \<in> levelUnit m B P E ` {d. getFullYear d = year \<and> 0 < neededCommits m B P E d}"
      using that by (simp only: s set_emitPlan_level [OF reg'] y)
    then obtain d where "u = levelUnit m B P E d"
      and "d \<in> {d. getFullYear d = year \<and> 0 < neededCommits m B P E d}"
      by (rule imageE)
    then show ?thesis by (intro exI [of _ d]) (simp add: levelUnit_def)
  qed
  show "\<exists>m. layout FONT (getGraphStartDate year) year startWeek [] [] (toUpperCase text) = Inr (m, ws)
             \<and> (\<forall>d. getFullYear d = year \<longrightarrow>
                   (0 < max 0 ((case map_of m (formatDate d) of Some e \<Rightarrow> B + P | None \<Rightarrow> B)
                               - (case E (formatDate d) of Some n \<Rightarrow> n | None \<Rightarrow> 0)) \<longrightarrow>
                      (\<exists>u \<in> set plan. date u = formatDate d)
                      \<and> (\<forall>u \<in> set plan. date u = formatDate d \<longrightarrow>
                             commits u = max 0 ((case map_of m (formatDate d) of Some e \<Rightarrow> B + P | None \<Rightarrow> B)
                                                - (case E (formatDate d) of Some n \<Rightarrow> n | None \<Rightarrow> 0))))
                   \<and> (max 0 ((case map_of m (formatDate d) of Some e \<Rightarrow> B + P | None \<Rightarrow> B)
                               - (case E (formatDate d) of Some n \<Rightarrow> n | None \<Rightarrow> 0)) \<le> 0 \<longrightarrow>
                        (\<forall>u \<in> set plan. date u \<noteq> formatDate d)))
             \<and> (\<forall>u \<in> set plan. \<exists>d. getFullYear d = year \<and> date u = formatDate d)"
    apply (rule exI [of _ m])
    apply (simp only: l simp_thms)
    using days all unfolding neededCommits_def by blast
qed

text \<open>
  The days visited in the two example zones in 2026. In \<open>santiago2026\<close> the time of day
  of \<open>d\<close> is 0 up to 5 September and one hour from 6 September on, so that on
  31 December \<open>d\<close> is after \<open>endDate\<close>.
\<close>

lemma loopDays_noClockChange:
  "loopDays noClockChange (newDateTime noClockChange year 0 1) (newDateTime noClockChange year 11 31)
     = [newDate year 0 1..newDate year 11 31]"
  by (rule loopDays_regular) (simp add: localTime_def noClockChange_def)

lemma loopDays_santiago2026:
  "loopDays santiago2026 (newDateTime santiago2026 2026 0 1) (newDateTime santiago2026 2026 11 31)
     = [newDate 2026 0 1..newDate 2026 11 31 - 1]"
proof -
  have a: "newDate 2026 0 1 = 20454" and c: "newDate 2026 8 6 = 20702" and b: "newDate 2026 11 31 = 20818"
    by code_simp+
  have z: "santiago2026 = (\<lambda>day. if day = 20702 then (0, 3600000) else (0, 0))"
    by (simp add: santiago2026_def c)
  have st: "newDateTime santiago2026 2026 0 1 = (20454, 0)"
    "newDateTime santiago2026 2026 11 31 = (20818, 0)"
    by (simp_all add: newDateTime_def a b z localTime_def)
  have "loopDays santiago2026 (20454, 0) (20818, 0)
      = [20454..20701] @ loopDays santiago2026 (20701 + 1, localTime santiago2026 (20701 + 1) 0) (20818, 0)"
    by (rule loopDays_run) (simp_all add: z localTime_def)
  also have "loopDays santiago2026 (20701 + 1, localTime santiago2026 (20701 + 1) 0) (20818, 0)
      = loopDays santiago2026 (20702, 3600000) (20818, 0)"
    by (simp add: z localTime_def)
  also have "loopDays santiago2026 (20702, 3600000) (20818, 0)
      = [20702..20817] @ loopDays santiago2026 (20817 + 1, localTime santiago2026 (20817 + 1) 3600000) (20818, 0)"
    by (rule loopDays_run) (simp_all add: z localTime_def)
  also have "loopDays santiago2026 (20817 + 1, localTime santiago2026 (20817 + 1) 3600000) (20818, 0) = []"
    using loopDays_last [of "(20818, 3600000)" "(20818, 0)" santiago2026] by (simp add: z localTime_def)
  also have "[20454..20701] @ [20702..20817] @ [] = [20454..20817]"
    using upto_split1 [of 20454 20702 20817] by simp
  finally show ?thesis unfolding st a b by simp
qed

lemma wellFormedFont_demoFont: "wellFormedFont demoFont"
  unfolding wellFormedFont_def demoFont_def
  by (auto simp: glyphI_def glyphHeart_def split: if_splits)

text \<open>
  A run of the model: \<open>generatePlan('i?', 2026, 20, 0)\<close> with the example font. The
  anchor is Sunday 28 December 2025; the top-left pixel of the glyph falls on that day and
  is dropped, the other ten pixels are emitted in date order, and the question mark gives
  a warning.
\<close>

lemma generatePlan_example:
  "generatePlan demoFont noClockChange ''i?'' 2026 20 0 None Map.empty =
     Inr ([\<lparr>date = ''2026-01-03'', commits = 20, char = ''I'', row = 6, col = 0\<rparr>,
           \<lparr>date = ''2026-01-04'', commits = 20, char = ''I'', row = 0, col = 1\<rparr>,
           \<lparr>date = ''2026-01-05'', commits = 20, char = ''I'', row = 1, col = 1\<rparr>,
           \<lparr>date = ''2026-01-06'', commits = 20, char = ''I'', row = 2, col = 1\<rparr>,
           \<lparr>date = ''2026-01-07'', commits = 20, char = ''I'', row = 3, col = 1\<rparr>,
           \<lparr>date = ''2026-01-08'', commits = 20, char = ''I'', row = 4, col = 1\<rparr>,
           \<lparr>date = ''2026-01-09'', commits = 20, char = ''I'', row = 5, col = 1\<rparr>,
           \<lparr>date = ''2026-01-10'', commits = 20, char = ''I'', row = 6, col = 1\<rparr>,
           \<lparr>date = ''2026-01-11'', commits = 20, char = ''I'', row = 0, col = 2\<rparr>,
           \<lparr>date = ''2026-01-17'', commits = 20, char = ''I'', row = 6, col = 2\<rparr>],
          [CharNotFound ''?''])"
  by code_simp

lemma generatePlan_example_supported:
  "generatePlan demoFont noClockChange ''i'' 2026 20 0 None Map.empty =
     Inr ([\<lparr>date = ''2026-01-03'', commits = 20, char = ''I'', row = 6, col = 0\<rparr>,
           \<lparr>date = ''2026-01-04'', commits = 20, char = ''I'', row = 0, col = 1\<rparr>,
           \<lparr>date = ''2026-01-05'', commits = 20, char = ''I'', row = 1, col = 1\<rparr>,
           \<lparr>date = ''2026-01-06'', commits = 20, char = ''I'', row = 2, col = 1\<rparr>,
           \<lparr>date = ''2026-01-07'', commits = 20, char = ''I'', row = 3, col = 1\<rparr>,
           \<lparr>date = ''2026-01-08'', commits = 20, char = ''I'', row = 4, col = 1\<rparr>,
           \<lparr>date = ''2026-01-09'', commits = 20, char = ''I'', row = 5, col = 1\<rparr>,
           \<lparr>date = ''2026-01-10'', commits = 20, char = ''I'', row = 6, col = 1\<rparr>,
           \<lparr>date = ''2026-01-11'', commits = 20, char = ''I'', row = 0, col = 2\<rparr>,
           \<lparr>date = ''2026-01-17'', commits = 20, char = ''I'', row = 6, col = 2\<rparr>],
          [])"
  by code_simp

section \<open>Properties of the tracker\<close>

lemma loadTracker_markCompleted:
  "completed (loadTracker (markCompleted d n now1 now2 dataDir)) =
     (completed (loadTracker dataDir))(d \<mapsto> \<lparr>ledger_commits = n, completedAt = now1\<rparr>)"
  by (simp add: markCompleted_def saveTracker_def Let_def)


lemma pendingCommits_annotate:
  "pendingCommits (annotate data u) = max 0 (commits u - doneFor data (date u))"
  by (simp add: annotate_def Let_def plan_unit.defs pending_unit.defs)

lemma getPending_filter_map:
  "getPending plan dataDir =
     map (annotate (loadTracker dataDir))
       (filter (\<lambda>u. 0 < max 0 (commits u - doneFor (loadTracker dataDir) (date u))) plan)"
  by (simp add: getPending_def Let_def filter_map comp_def pendingCommits_annotate)

section \<open>The claims\<close>

text \<open>
  C1. Background leveling. The claim asks, for every calendar day d of the target year
  with \<open>needed(d) = max(0, target(d) - E.get(d, 0))\<close> positive, for a unit of the plan
  on d. The code does not give one for 31 December when the process runs in a zone that
  skips a local midnight of the year. With the empty text, the year 2026, background
  level 5 and no existing counts, 5 commits are needed on every day of 2026. In the zone
  of America/Santiago the clocks go from 00:00 to 01:00 on 6 September 2026: from that
  day on \<open>d\<close> is at 01:00, on 31 December it is later than \<open>endDate\<close> (at 00:00),
  and the loop ends after 30 December. The plan has 364 units and none dated
  \<open>2026-12-31\<close>; in a zone without clock changes it has 365 units and that one among
  them.
\<close>

theorem generatePlan_leveling_skips_last_day:
  "getFullYear (newDate 2026 11 31) = 2026
   \<and> formatDate (newDate 2026 11 31) = ''2026-12-31''
   \<and> layout demoFont (getGraphStartDate 2026) 2026 0 [] [] (toUpperCase []) = Inr ([], [])
   \<and> max 0 ((case map_of ([] :: textPlanMap) ''2026-12-31'' of Some e \<Rightarrow> 5 + 20 | None \<Rightarrow> 5)
              - (case (Map.empty :: string \<rightharpoonup> int) ''2026-12-31'' of Some n \<Rightarrow> n | None \<Rightarrow> 0)) = (5 :: int)
   \<and> generatePlan demoFont santiago2026 [] 2026 20 0 (Some 5) Map.empty =
       Inr (planOf (generatePlan demoFont santiago2026 [] 2026 20 0 (Some 5) Map.empty), [])
   \<and> length (planOf (generatePlan demoFont santiago2026 [] 2026 20 0 (Some 5) Map.empty)) = 364
   \<and> ''2026-12-30'' \<in> set (map date (planOf (generatePlan demoFont santiago2026 [] 2026 20 0 (Some 5) Map.empty)))
   \<and> ''2026-12-31'' \<notin> set (map date (planOf (generatePlan demoFont santiago2026 [] 2026 20 0 (Some 5) Map.empty)))
   \<and> ''2026-12-31'' \<in> set (map date (planOf (generatePlan demoFont noClockChange [] 2026 20 0 (Some 5) Map.empty)))
   \<and> length (planOf (generatePlan demoFont noClockChange [] 2026 20 0 (Some 5) Map.empty)) = 365"
proof -
  let ?short = "planOf (generatePlan demoFont santiago2026 [] 2026 20 0 (Some 5) Map.empty)"
  let ?other = "planOf (generatePlan demoFont noClockChange [] 2026 20 0 (Some 5) Map.empty)"
  have y: "getFullYear (newDate 2026 11 31) = 2026" by code_simp
  have f: "formatDate (newDate 2026 11 31) = ''2026-12-31''" by code_simp
  have f30: "formatDate (newDate 2026 11 31 - 1) = ''2026-12-30''" by code_simp
  have l: "layout demoFont (getGraphStartDate 2026) 2026 0 [] [] (toUpperCase []) = Inr ([], [])"
    by (simp add: toUpperCase_def)
  have need: "max 0 ((case map_of ([] :: textPlanMap) ''2026-12-31'' of Some e \<Rightarrow> 5 + 20 | None \<Rightarrow> 5)
              - (case (Map.empty :: string \<rightharpoonup> int) ''2026-12-31'' of Some n \<Rightarrow> n | None \<Rightarrow> 0)) = (5 :: int)"
    by simp
  have g: "generatePlan demoFont santiago2026 [] 2026 20 0 (Some 5) Map.empty = Inr (?short, [])"
    by (simp add: generatePlan_empty_text planOf_def)
  have n: "neededCommits [] 5 20 Map.empty d = 5" for d by (simp add: neededCommits_def)
  have p: "?short = sortBy (\<lambda>a b. localeCompare (date a) (date b))
      (map (levelUnit [] 5 20 Map.empty) [newDate 2026 0 1..newDate 2026 11 31 - 1])"
    by (simp add: generatePlan_empty_text planOf_def emitPlan_level n loopDays_santiago2026)
  have p0: "?other = sortBy (\<lambda>a b. localeCompare (date a) (date b))
      (map (levelUnit [] 5 20 Map.empty) [newDate 2026 0 1..newDate 2026 11 31])"
    by (simp add: generatePlan_empty_text planOf_def emitPlan_level n loopDays_noClockChange)
  have a: "newDate 2026 0 1 = 20454" and b: "newDate 2026 11 31 = 20818" by code_simp+
  have len: "length ?short = 364" unfolding p by (simp add: length_sortBy a b)
  have len0: "length ?other = 365" unfolding p0 by (simp add: length_sortBy a b)
  have s: "set (map date ?short) = formatDate ` set [newDate 2026 0 1..newDate 2026 11 31 - 1]"
    unfolding p by (simp add: set_sortBy image_image levelUnit_def)
  have s0: "set (map date ?other) = formatDate ` set [newDate 2026 0 1..newDate 2026 11 31]"
    unfolding p0 by (simp add: set_sortBy image_image levelUnit_def)
  have in30: "''2026-12-30'' \<in> set (map date ?short)"
    unfolding s f30 [symmetric] by (rule imageI) (simp add: a b)
  have in31: "''2026-12-31'' \<in> set (map date ?other)"
    unfolding s0 f [symmetric] by (rule imageI) (simp add: a b)
  have out31: "''2026-12-31'' \<notin> set (map date ?short)"
  proof
    assume "''2026-12-31'' \<in> set (map date ?short)"
    then obtain k where k: "k \<in> set [newDate 2026 0 1..newDate 2026 11 31 - 1]"
      and "formatDate k = ''2026-12-31''"
      unfolding s by auto
    then have "k = newDate 2026 11 31" using f formatDate_inj by simp
    then show False using k by simp
  qed
  show ?thesis using y f l need g len in30 out31 in31 len0 by (intro conjI)
qed



text \<open>
  C3. If the ledger holds, for the date of every unit of the plan, an entry whose commit
  count is at least the unit's \<open>commits\<close>, then \<open>getPending\<close> returns the empty
  list.
\<close>

theorem getPending_all_completed:
  assumes "\<forall>u \<in> set plan. \<exists>c. completed (loadTracker dataDir) (date u) = Some c
                \<and> commits u \<le> ledger_commits c"
  shows "getPending plan dataDir = []"
proof -
  have "filter (\<lambda>u. 0 < max 0 (commits u - doneFor (loadTracker dataDir) (date u))) plan = []"
  proof (intro filter_False ballI)
    fix u assume "u \<in> set plan"
    then obtain c where c: "completed (loadTracker dataDir) (date u) = Some c"
      and le: "commits u \<le> ledger_commits c"
      using assms by blast
    have "doneFor (loadTracker dataDir) (date u) = ledger_commits c"
      unfolding doneFor_def c by simp
    then show "\<not> 0 < max 0 (commits u - doneFor (loadTracker dataDir) (date u))"
      using le by simp
  qed
  then show ?thesis unfolding getPending_filter_map by simp
qed

theorem getPending_all_completed_witness:
  "completed (loadTracker (markCompleted (date unitB) 25 ''t3'' ''t4''
       (markCompleted (date unitA) 20 ''t1'' ''t2'' Missing))) (date unitA)
     = Some \<lparr>ledger_commits = 20, completedAt = ''t1''\<rparr>
   \<and> completed (loadTracker (markCompleted (date unitB) 25 ''t3'' ''t4''
       (markCompleted (date unitA) 20 ''t1'' ''t2'' Missing))) (date unitB)
     = Some \<lparr>ledger_commits = 25, completedAt = ''t3''\<rparr>
   \<and> commits unitA \<le> 20 \<and> commits unitB \<le> 25
   \<and> getPending [unitA, unitB]
        (markCompleted (date unitB) 25 ''t3'' ''t4'' (markCompleted (date unitA) 20 ''t1'' ''t2'' Missing)) = []"
proof -
  let ?f = "markCompleted (date unitB) 25 ''t3'' ''t4'' (markCompleted (date unitA) 20 ''t1'' ''t2'' Missing)"
  have a: "completed (loadTracker ?f) (date unitA) = Some \<lparr>ledger_commits = 20, completedAt = ''t1''\<rparr>"
    by (simp add: loadTracker_markCompleted unitA_def unitB_def)
  have b: "completed (loadTracker ?f) (date unitB) = Some \<lparr>ledger_commits = 25, completedAt = ''t3''\<rparr>"
    by (simp add: loadTracker_markCompleted unitA_def unitB_def)
  have c: "commits unitA \<le> 20" "commits unitB \<le> 25"
    by (simp_all add: unitA_def unitB_def)
  have h: "\<forall>u \<in> set [unitA, unitB]. \<exists>c. completed (loadTracker ?f) (date u) = Some c
       \<and> commits u \<le> ledger_commits c"
    using a b c by simp
  show ?thesis using a b c getPending_all_completed [OF h] by simp
qed



text \<open>
  C5. Unsupported glyph. When the key at the head of the text that is left is not in the
  font table, the scan continues with the rest of the text, with the same
  \<open>currentWeek\<close> and the same map, and one more warning: its result is the result of
  the scan of the rest, with the warnings so far and the warning for that key in front.
  When the scan of the whole text reaches the character in that state, \<open>generatePlan\<close>
  returns the plan of the map which the scan of the rest gives, the warning for the key is
  among the warnings it returns, and no unit of the plan has the key as its \<open>char\<close>.
  A key of the scanner is never the background sentinel. \<open>generatePlan\<close> returns a
  plan when the font table is well formed, and every unit of a plan it returns has the
  sentinel or a key of the font table as its \<open>char\<close>: no unit has an unsupported key.
\<close>

theorem layout_unsupported_glyph:
  "(FONT (fst (nextKey c cs)) = None \<longrightarrow>
      layout FONT graphStart year currentWeek m ws (c # cs) =
        layout FONT graphStart year currentWeek m
          (ws @ [CharNotFound (fst (nextKey c cs))]) (snd (nextKey c cs))
      \<and> layout FONT graphStart year currentWeek m ws (c # cs) =
          (case layout FONT graphStart year currentWeek m [] (snd (nextKey c cs)) of
             Inl e \<Rightarrow> Inl e
           | Inr r \<Rightarrow> Inr (fst r, ws @ CharNotFound (fst (nextKey c cs)) # snd r)))
   \<and> (FONT (fst (nextKey c cs)) = None
        \<and> layout FONT (getGraphStartDate year) year startWeek [] [] (toUpperCase text) =
            layout FONT (getGraphStartDate year) year currentWeek m ws (c # cs) \<longrightarrow>
        generatePlan FONT zone text year P startWeek bg E =
          (case layout FONT (getGraphStartDate year) year currentWeek m [] (snd (nextKey c cs)) of
             Inl e \<Rightarrow> Inl e
           | Inr r \<Rightarrow> Inr (sortBy (\<lambda>a b. localeCompare (date a) (date b)) (emitPlan zone (fst r) year P bg E),
                           ws @ CharNotFound (fst (nextKey c cs)) # snd r))
        \<and> (\<forall>plan ws'. generatePlan FONT zone text year P startWeek bg E = Inr (plan, ws') \<longrightarrow>
              CharNotFound (fst (nextKey c cs)) \<in> set ws'
              \<and> (\<forall>u \<in> set plan. char u \<noteq> fst (nextKey c cs))))
   \<and> fst (nextKey c cs) \<noteq> ''bg''
   \<and> (wellFormedFont FONT \<longrightarrow>
        (\<exists>plan ws'. generatePlan FONT zone text year P startWeek bg E = Inr (plan, ws')))
   \<and> (\<forall>plan ws'. generatePlan FONT zone text year P startWeek bg E = Inr (plan, ws') \<longrightarrow>
        (\<forall>u \<in> set plan. char u = ''bg'' \<or> FONT (char u) \<noteq> None))"
  (is "?C1 \<and> ?C2 \<and> ?C3 \<and> ?C4 \<and> ?C5")
proof -
  let ?key = "fst (nextKey c cs)" and ?rest = "snd (nextKey c cs)"
  have units: "\<forall>u \<in> set plan. char u = ''bg'' \<or> FONT (char u) \<noteq> None"
    if g: "generatePlan FONT zone text year P startWeek bg E = Inr (plan, ws')" for plan ws'
  proof -
    obtain m where ok: "textMapOk FONT (getGraphStartDate year) year startWeek m"
      and p: "plan = sortBy (\<lambda>a b. localeCompare (date a) (date b)) (emitPlan zone m year P bg E)"
      using generatePlan_result [OF g] by blast
    have "char u = ''bg'' \<or> FONT (char u) \<noteq> None" if "u \<in> set (emitPlan zone m year P bg E)" for u
      using emitPlan_unit [OF ok that] by (auto simp: textEntryOk_def)
    then show ?thesis unfolding p by (simp add: set_sortBy)
  qed
  have step: "layout FONT gs year currentWeek m ws (c # cs) =
        layout FONT gs year currentWeek m (ws @ [CharNotFound ?key]) ?rest"
    if "FONT ?key = None" for gs
    using that by (simp add: Let_def)
  have result: "layout FONT gs year currentWeek m ws (c # cs) =
          (case layout FONT gs year currentWeek m [] ?rest of
             Inl e \<Rightarrow> Inl e
           | Inr r \<Rightarrow> Inr (fst r, ws @ CharNotFound ?key # snd r))"
    if miss: "FONT ?key = None" for gs
    unfolding step [OF miss]
    by (subst layout_warnings) (simp split: sum.splits)
  have plan: "generatePlan FONT zone text year P startWeek bg E =
          (case layout FONT (getGraphStartDate year) year currentWeek m [] ?rest of
             Inl e \<Rightarrow> Inl e
           | Inr r \<Rightarrow> Inr (sortBy (\<lambda>a b. localeCompare (date a) (date b)) (emitPlan zone (fst r) year P bg E),
                           ws @ CharNotFound ?key # snd r))"
    if miss: "FONT ?key = None"
      and reach: "layout FONT (getGraphStartDate year) year startWeek [] [] (toUpperCase text) =
            layout FONT (getGraphStartDate year) year currentWeek m ws (c # cs)"
    unfolding generatePlan_cases reach result [OF miss] by (simp split: sum.splits)
  have warned: "CharNotFound ?key \<in> set ws' \<and> (\<forall>u \<in> set plan. char u \<noteq> ?key)"
    if miss: "FONT ?key = None"
      and reach: "layout FONT (getGraphStartDate year) year startWeek [] [] (toUpperCase text) =
            layout FONT (getGraphStartDate year) year currentWeek m ws (c # cs)"
      and g: "generatePlan FONT zone text year P startWeek bg E = Inr (plan, ws')" for plan ws'
  proof
    show "CharNotFound ?key \<in> set ws'"
      using g unfolding plan [OF miss reach] by (auto split: sum.splits)
    show "\<forall>u \<in> set plan. char u \<noteq> ?key"
    proof
      fix u assume "u \<in> set plan"
      then have "char u = ''bg'' \<or> FONT (char u) \<noteq> None" using units [OF g] by simp
      then show "char u \<noteq> ?key" using miss nextKey_not_bg [of c cs] by auto
    qed
  qed
  have total: "\<exists>plan ws'. generatePlan FONT zone text year P startWeek bg E = Inr (plan, ws')"
    if "wellFormedFont FONT"
    using that by (rule generatePlan_total)
  have c1: ?C1
  proof (intro impI conjI)
    assume miss: "FONT ?key = None"
    show "layout FONT graphStart year currentWeek m ws (c # cs) =
        layout FONT graphStart year currentWeek m (ws @ [CharNotFound ?key]) ?rest"
      by (rule step [OF miss])
    show "layout FONT graphStart year currentWeek m ws (c # cs) =
          (case layout FONT graphStart year currentWeek m [] ?rest of
             Inl e \<Rightarrow> Inl e
           | Inr r \<Rightarrow> Inr (fst r, ws @ CharNotFound ?key # snd r))"
      by (rule result [OF miss])
  qed
  have c2: ?C2
  proof (intro impI conjI allI)
    assume h: "FONT ?key = None
        \<and> layout FONT (getGraphStartDate year) year startWeek [] [] (toUpperCase text) =
            layout FONT (getGraphStartDate year) year currentWeek m ws (c # cs)"
    show "generatePlan FONT zone text year P startWeek bg E =
          (case layout FONT (getGraphStartDate year) year currentWeek m [] ?rest of
             Inl e \<Rightarrow> Inl e
           | Inr r \<Rightarrow> Inr (sortBy (\<lambda>a b. localeCompare (date a) (date b)) (emitPlan zone (fst r) year P bg E),
                           ws @ CharNotFound ?key # snd r))"
      by (rule plan [OF conjunct1 [OF h] conjunct2 [OF h]])
    fix plan ws'
    assume g: "generatePlan FONT zone text year P startWeek bg E = Inr (plan, ws')"
    show "CharNotFound ?key \<in> set ws'"
      using warned [OF conjunct1 [OF h] conjunct2 [OF h] g] by (rule conjunct1)
    show "\<forall>u \<in> set plan. char u \<noteq> ?key"
      using warned [OF conjunct1 [OF h] conjunct2 [OF h] g] by (rule conjunct2)
  qed
  have c3: ?C3 by (rule nextKey_not_bg)
  have c4: ?C4 using total by (rule impI)
  have c5: ?C5 using units by (intro allI impI)
  show ?thesis using c1 c2 c3 c4 c5 by (intro conjI)
qed

theorem layout_unsupported_glyph_witness:
  "demoFont (fst (nextKey CHR ''?'' ''I'')) = None
   \<and> wellFormedFont demoFont
   \<and> layout demoFont (getGraphStartDate 2026) 2026 0 [] [] (toUpperCase ''?i'')
       = layout demoFont (getGraphStartDate 2026) 2026 0 [] [] (CHR ''?'' # ''I'')
   \<and> layout demoFont (getGraphStartDate 2026) 2026 0 [] [] (CHR ''?'' # ''I'')
       = layout demoFont (getGraphStartDate 2026) 2026 0 [] [CharNotFound ''?''] ''I''
   \<and> generatePlan demoFont noClockChange ''?i'' 2026 20 0 None Map.empty
       = Inr (planOf (generatePlan demoFont noClockChange ''i'' 2026 20 0 None Map.empty),
              [CharNotFound ''?''])
   \<and> length (planOf (generatePlan demoFont noClockChange ''i'' 2026 20 0 None Map.empty)) = 10
   \<and> CharNotFound ''?'' \<in> set [CharNotFound ''?'']
   \<and> ''?'' \<notin> set (map char (planOf (generatePlan demoFont noClockChange ''i'' 2026 20 0 None Map.empty)))"
proof -
  have h: "demoFont (fst (nextKey CHR ''?'' ''I'')) = None"
    by (simp add: nextKey_def demoFont_def)
  have k: "fst (nextKey CHR ''?'' ''I'') = ''?''" "snd (nextKey CHR ''?'' ''I'') = ''I''"
    by (simp_all add: nextKey_def)
  have u: "toUpperCase ''?i'' = CHR ''?'' # ''I''" "toUpperCase ''i'' = ''I''" by code_simp+
  have reach: "layout demoFont (getGraphStartDate 2026) 2026 0 [] [] (toUpperCase ''?i'')
       = layout demoFont (getGraphStartDate 2026) 2026 0 [] [] (CHR ''?'' # ''I'')"
    by (simp only: u)
  note t = layout_unsupported_glyph [of demoFont "CHR ''?''" "''I''" "getGraphStartDate 2026" 2026 0 "[]" "[]"
      0 "''?i''" noClockChange 20 None Map.empty]
  have a: "layout demoFont (getGraphStartDate 2026) 2026 0 [] [] (CHR ''?'' # ''I'')
       = layout demoFont (getGraphStartDate 2026) 2026 0 [] [CharNotFound ''?''] ''I''"
    using t h unfolding k by simp
  have i: "generatePlan demoFont noClockChange ''i'' 2026 20 0 None Map.empty
      = Inr (planOf (generatePlan demoFont noClockChange ''i'' 2026 20 0 None Map.empty), [])"
    unfolding generatePlan_example_supported planOf_def by simp
  have g: "generatePlan demoFont noClockChange ''?i'' 2026 20 0 None Map.empty =
      (case layout demoFont (getGraphStartDate 2026) 2026 0 [] [] ''I'' of
         Inl e \<Rightarrow> Inl e
       | Inr r \<Rightarrow> Inr (sortBy (\<lambda>a b. localeCompare (date a) (date b))
                        (emitPlan noClockChange (fst r) 2026 20 None Map.empty),
                       [] @ CharNotFound ''?'' # snd r))"
    using t h reach unfolding k by blast
  have b: "generatePlan demoFont noClockChange ''?i'' 2026 20 0 None Map.empty
       = Inr (planOf (generatePlan demoFont noClockChange ''i'' 2026 20 0 None Map.empty),
              [CharNotFound ''?''])"
  proof (cases "layout demoFont (getGraphStartDate 2026) 2026 0 [] [] ''I''")
    case (Inl e)
    then show ?thesis using i by (simp add: generatePlan_cases u del: layout.simps)
  next
    case (Inr r)
    have "generatePlan demoFont noClockChange ''i'' 2026 20 0 None Map.empty
        = Inr (sortBy (\<lambda>a b. localeCompare (date a) (date b))
                 (emitPlan noClockChange (fst r) 2026 20 None Map.empty), snd r)"
      using Inr by (simp add: generatePlan_cases u del: layout.simps)
    then have "planOf (generatePlan demoFont noClockChange ''i'' 2026 20 0 None Map.empty)
        = sortBy (\<lambda>a b. localeCompare (date a) (date b))
            (emitPlan noClockChange (fst r) 2026 20 None Map.empty)"
      and "snd r = []"
      using generatePlan_example_supported by (simp_all add: planOf_def)
    then show ?thesis unfolding g using Inr by (simp del: layout.simps)
  qed
  have l: "length (planOf (generatePlan demoFont noClockChange ''i'' 2026 20 0 None Map.empty)) = 10"
    unfolding generatePlan_example_supported planOf_def by simp
  have n: "''?'' \<notin> set (map char (planOf (generatePlan demoFont noClockChange ''i'' 2026 20 0 None Map.empty)))"
    unfolding generatePlan_example_supported planOf_def by simp
  show ?thesis using h wellFormedFont_demoFont reach a b l n by (intro conjI) simp_all
qed

text \<open>
  C6. Target-year filter. The anchor is a Sunday, at most 6 days before 1 January, and
  the date of a cell is the anchor plus \<open>week * 7 + day\<close> days. A filled cell whose date
  is not in the target year leaves the map unchanged. \<open>generatePlan\<close> returns a plan
  when the font table is well formed; whenever it returns, every entry of the map and
  every text-pixel unit of the plan is stored under the date of its cell, which lies in
  the target year, and a date outside the target year is neither a key of the map nor the
  date of a text-pixel unit.
\<close>

theorem layout_target_year_filter:
  "getDay (getGraphStartDate year) = 0
   \<and> getGraphStartDate year \<le> newDate year 0 1
   \<and> newDate year 0 1 < getGraphStartDate year + 7
   \<and> offsetToDate graphStart week day = graphStart + week * 7 + day
   \<and> (getFullYear (offsetToDate graphStart (currentWeek + int c) (int r)) \<noteq> year \<longrightarrow>
        setPixel graphStart year charKey currentWeek r c m0 = m0)
   \<and> (wellFormedFont FONT \<longrightarrow>
        (\<exists>plan ws. generatePlan FONT zone text year P startWeek bg E = Inr (plan, ws)))
   \<and> (\<forall>plan ws. generatePlan FONT zone text year P startWeek bg E = Inr (plan, ws) \<longrightarrow>
        (\<exists>m. layout FONT (getGraphStartDate year) year startWeek [] [] (toUpperCase text) = Inr (m, ws)
           \<and> (\<forall>p \<in> set m.
                 fst p = formatDate (offsetToDate (getGraphStartDate year) (entry_col (snd p)) (entry_row (snd p)))
                 \<and> getFullYear (offsetToDate (getGraphStartDate year) (entry_col (snd p)) (entry_row (snd p))) = year)
           \<and> (\<forall>u \<in> set plan. char u \<noteq> ''bg'' \<longrightarrow>
                 date u = formatDate (offsetToDate (getGraphStartDate year) (col u) (row u))
                 \<and> getFullYear (offsetToDate (getGraphStartDate year) (col u) (row u)) = year)
           \<and> (\<forall>d. getFullYear d \<noteq> year \<longrightarrow>
                 formatDate d \<notin> fst ` set m
                 \<and> (\<forall>u \<in> set plan. char u \<noteq> ''bg'' \<longrightarrow> date u \<noteq> formatDate d))))"
proof -
  let ?gs = "getGraphStartDate year"
  have sp: "getFullYear (offsetToDate graphStart (currentWeek + int c) (int r)) \<noteq> year \<longrightarrow>
          setPixel graphStart year charKey currentWeek r c m0 = m0"
    by (simp add: setPixel_def Let_def)
  have total: "wellFormedFont FONT \<longrightarrow>
        (\<exists>plan ws. generatePlan FONT zone text year P startWeek bg E = Inr (plan, ws))"
    using generatePlan_total by blast
  have tail: "\<forall>plan ws. generatePlan FONT zone text year P startWeek bg E = Inr (plan, ws) \<longrightarrow>
        (\<exists>m. layout FONT ?gs year startWeek [] [] (toUpperCase text) = Inr (m, ws)
           \<and> (\<forall>p \<in> set m.
                 fst p = formatDate (offsetToDate ?gs (entry_col (snd p)) (entry_row (snd p)))
                 \<and> getFullYear (offsetToDate ?gs (entry_col (snd p)) (entry_row (snd p))) = year)
           \<and> (\<forall>u \<in> set plan. char u \<noteq> ''bg'' \<longrightarrow>
                 date u = formatDate (offsetToDate ?gs (col u) (row u))
                 \<and> getFullYear (offsetToDate ?gs (col u) (row u)) = year)
           \<and> (\<forall>d. getFullYear d \<noteq> year \<longrightarrow>
                 formatDate d \<notin> fst ` set m
                 \<and> (\<forall>u \<in> set plan. char u \<noteq> ''bg'' \<longrightarrow> date u \<noteq> formatDate d)))"
  proof (intro allI impI)
    fix plan ws
    assume g: "generatePlan FONT zone text year P startWeek bg E = Inr (plan, ws)"
    obtain m where l: "layout FONT ?gs year startWeek [] [] (toUpperCase text) = Inr (m, ws)"
      and ok: "textMapOk FONT ?gs year startWeek m"
      and p: "plan = sortBy (\<lambda>a b. localeCompare (date a) (date b)) (emitPlan zone m year P bg E)"
      using generatePlan_result [OF g] by blast
    have s: "set plan = set (emitPlan zone m year P bg E)" unfolding p by (rule set_sortBy)
    have entries: "fst p = formatDate (offsetToDate ?gs (entry_col (snd p)) (entry_row (snd p)))
        \<and> getFullYear (offsetToDate ?gs (entry_col (snd p)) (entry_row (snd p))) = year"
      if "p \<in> set m" for p
      using ok that by (simp add: textMapOk_def textEntryOk_def)
    have units: "date u = formatDate (offsetToDate ?gs (col u) (row u))
        \<and> getFullYear (offsetToDate ?gs (col u) (row u)) = year"
      if "u \<in> set plan" and "char u \<noteq> ''bg''" for u
      using emitPlan_unit [OF ok that(1) [unfolded s]] that(2) by (auto simp: textEntryOk_def)
    have spill: "formatDate d \<notin> fst ` set m
        \<and> (\<forall>u \<in> set plan. char u \<noteq> ''bg'' \<longrightarrow> date u \<noteq> formatDate d)"
      if d: "getFullYear d \<noteq> year" for d
    proof (intro conjI ballI impI notI)
      assume "formatDate d \<in> fst ` set m"
      then obtain p where p: "p \<in> set m" and "fst p = formatDate d" by auto
      then have "formatDate (offsetToDate ?gs (entry_col (snd p)) (entry_row (snd p))) = formatDate d"
        using entries [OF p] by simp
      then have "offsetToDate ?gs (entry_col (snd p)) (entry_row (snd p)) = d" by (rule formatDate_inj)
      then show False using entries [OF p] d by simp
    next
      fix u assume u: "u \<in> set plan" "char u \<noteq> ''bg''" "date u = formatDate d"
      then have "formatDate (offsetToDate ?gs (col u) (row u)) = formatDate d"
        using units [OF u(1,2)] by simp
      then have "offsetToDate ?gs (col u) (row u) = d" by (rule formatDate_inj)
      then show False using units [OF u(1,2)] d by simp
    qed
    show "\<exists>m. layout FONT ?gs year startWeek [] [] (toUpperCase text) = Inr (m, ws)
           \<and> (\<forall>p \<in> set m.
                 fst p = formatDate (offsetToDate ?gs (entry_col (snd p)) (entry_row (snd p)))
                 \<and> getFullYear (offsetToDate ?gs (entry_col (snd p)) (entry_row (snd p))) = year)
           \<and> (\<forall>u \<in> set plan. char u \<noteq> ''bg'' \<longrightarrow>
                 date u = formatDate (offsetToDate ?gs (col u) (row u))
                 \<and> getFullYear (offsetToDate ?gs (col u) (row u)) = year)
           \<and> (\<forall>d. getFullYear d \<noteq> year \<longrightarrow>
                 formatDate d \<notin> fst ` set m
                 \<and> (\<forall>u \<in> set plan. char u \<noteq> ''bg'' \<longrightarrow> date u \<noteq> formatDate d))"
      using l entries units spill by blast
  qed
  show ?thesis
    using getDay_getGraphStartDate [of year] getGraphStartDate_anchor [of year]
      offsetToDate_eq [of graphStart week day] sp total tail
    by (intro conjI)
qed

theorem layout_target_year_filter_witness:
  "wellFormedFont demoFont
   \<and> getDay (getGraphStartDate 2026) = 0
   \<and> getFullYear (offsetToDate (getGraphStartDate 2026) (0 + int 0) (int 0)) \<noteq> 2026
   \<and> setPixel (getGraphStartDate 2026) 2026 ''I'' 0 0 0 [] = []
   \<and> (\<exists>plan ws. generatePlan demoFont noClockChange ''I'' 2026 20 0 None Map.empty = Inr (plan, ws)
        \<and> (\<forall>u \<in> set plan. char u \<noteq> ''bg'' \<longrightarrow>
              date u = formatDate (offsetToDate (getGraphStartDate 2026) (col u) (row u))
              \<and> getFullYear (offsetToDate (getGraphStartDate 2026) (col u) (row u)) = 2026))"
proof -
  have spill: "getFullYear (offsetToDate (getGraphStartDate 2026) (0 + int 0) (int 0)) \<noteq> 2026"
    by code_simp
  note t = layout_target_year_filter [of 2026 "getGraphStartDate 2026" 0 0 0 0 0 "''I''" "[]" demoFont
      noClockChange "''I''" 20 0 None Map.empty]
  have a: "getDay (getGraphStartDate 2026) = 0" using t by blast
  have b: "setPixel (getGraphStartDate 2026) 2026 ''I'' 0 0 0 [] = []" using t spill by blast
  obtain plan ws where g: "generatePlan demoFont noClockChange ''I'' 2026 20 0 None Map.empty = Inr (plan, ws)"
    using t wellFormedFont_demoFont by blast
  have "\<forall>u \<in> set plan. char u \<noteq> ''bg'' \<longrightarrow>
              date u = formatDate (offsetToDate (getGraphStartDate 2026) (col u) (row u))
              \<and> getFullYear (offsetToDate (getGraphStartDate 2026) (col u) (row u)) = 2026"
    using t g by blast
  then have c: "\<exists>plan ws. generatePlan demoFont noClockChange ''I'' 2026 20 0 None Map.empty = Inr (plan, ws)
        \<and> (\<forall>u \<in> set plan. char u \<noteq> ''bg'' \<longrightarrow>
              date u = formatDate (offsetToDate (getGraphStartDate 2026) (col u) (row u))
              \<and> getFullYear (offsetToDate (getGraphStartDate 2026) (col u) (row u)) = 2026)"
    using g by blast
  show ?thesis using wellFormedFont_demoFont a spill b c by (intro conjI)
qed



text \<open>
  C8. Glyph containment: with \<open>startWeek \<ge> 0\<close>, \<open>generatePlan\<close> returns a plan
  when the font table is well formed, and every unit of a plan it returns whose
  \<open>char\<close> is not the background sentinel has \<open>0 \<le> row < 7\<close> and
  \<open>0 \<le> col < 53\<close>.
\<close>

theorem generatePlan_glyph_containment:
  assumes "0 \<le> startWeek"
  shows "(wellFormedFont FONT \<longrightarrow>
           (\<exists>plan ws. generatePlan FONT zone text year P startWeek bg E = Inr (plan, ws)))
     \<and> (\<forall>plan ws. generatePlan FONT zone text year P startWeek bg E = Inr (plan, ws) \<longrightarrow>
          (\<forall>u \<in> set plan. char u \<noteq> ''bg'' \<longrightarrow>
             0 \<le> row u \<and> row u < 7 \<and> 0 \<le> col u \<and> col u < 53))"
proof (intro conjI impI allI)
  assume "wellFormedFont FONT"
  then show "\<exists>plan ws. generatePlan FONT zone text year P startWeek bg E = Inr (plan, ws)"
    by (rule generatePlan_total)
next
  fix plan ws
  assume g: "generatePlan FONT zone text year P startWeek bg E = Inr (plan, ws)"
  then obtain m where ok: "textMapOk FONT (getGraphStartDate year) year startWeek m"
    and p: "plan = sortBy (\<lambda>a b. localeCompare (date a) (date b)) (emitPlan zone m year P bg E)"
    using generatePlan_result by blast
  have "0 \<le> row u \<and> row u < 7 \<and> 0 \<le> col u \<and> col u < 53"
    if "u \<in> set (emitPlan zone m year P bg E)" and "char u \<noteq> ''bg''" for u
    using emitPlan_unit [OF ok that(1)] that(2) assms by (auto simp: textEntryOk_def)
  then show "\<forall>u \<in> set plan. char u \<noteq> ''bg'' \<longrightarrow>
             0 \<le> row u \<and> row u < 7 \<and> 0 \<le> col u \<and> col u < 53"
    unfolding p by (simp add: set_sortBy)
qed

theorem generatePlan_glyph_containment_witness:
  "(0::int) \<le> 1 \<and> wellFormedFont demoFont
   \<and> (\<exists>plan ws. generatePlan demoFont noClockChange ''I<3'' 2026 20 1 (Some 5) Map.empty = Inr (plan, ws)
        \<and> (\<forall>u \<in> set plan. char u \<noteq> ''bg'' \<longrightarrow>
              0 \<le> row u \<and> row u < 7 \<and> 0 \<le> col u \<and> col u < 53))"
proof -
  have h: "(0::int) \<le> 1" by simp
  show ?thesis
    using wellFormedFont_demoFont h
      generatePlan_glyph_containment [OF h, of demoFont noClockChange "''I<3''" 2026 20 "Some 5" Map.empty]
    by blast
qed

text \<open>
  C9. Without background leveling the result of \<open>generatePlan\<close> does not depend on
  the existing counts; it is a plan when the font table is well formed, and every unit of
  a returned plan has \<open>commits = commitsPerPixel\<close>.
\<close>

theorem generatePlan_ignores_existing:
  "generatePlan FONT zone text year P startWeek None E1 = generatePlan FONT zone text year P startWeek None E2
   \<and> (wellFormedFont FONT \<longrightarrow>
        (\<exists>plan ws. generatePlan FONT zone text year P startWeek None E1 = Inr (plan, ws)))
   \<and> (\<forall>plan ws. generatePlan FONT zone text year P startWeek None E1 = Inr (plan, ws) \<longrightarrow>
        (\<forall>u \<in> set plan. commits u = P))"
proof (intro conjI impI allI)
  show "generatePlan FONT zone text year P startWeek None E1 = generatePlan FONT zone text year P startWeek None E2"
    by (simp add: generatePlan_cases emitPlan_text split: sum.splits)
next
  assume "wellFormedFont FONT"
  then show "\<exists>plan ws. generatePlan FONT zone text year P startWeek None E1 = Inr (plan, ws)"
    by (rule generatePlan_total)
next
  fix plan ws
  assume g: "generatePlan FONT zone text year P startWeek None E1 = Inr (plan, ws)"
  then obtain m where p: "plan = sortBy (\<lambda>a b. localeCompare (date a) (date b)) (emitPlan zone m year P None E1)"
    using generatePlan_result by blast
  show "\<forall>u \<in> set plan. commits u = P"
    unfolding p using emitPlan_commits_text by (simp add: set_sortBy)
qed

theorem generatePlan_ignores_existing_witness:
  "wellFormedFont demoFont
   \<and> generatePlan demoFont noClockChange ''I'' 2026 20 0 None Map.empty
       = generatePlan demoFont noClockChange ''I'' 2026 20 0 None [''2026-01-04'' \<mapsto> 7]
   \<and> (\<exists>plan ws. generatePlan demoFont noClockChange ''I'' 2026 20 0 None Map.empty = Inr (plan, ws)
        \<and> (\<forall>u \<in> set plan. commits u = 20))"
  using wellFormedFont_demoFont
    generatePlan_ignores_existing [of demoFont noClockChange "''I''" 2026 20 0 Map.empty "[''2026-01-04'' \<mapsto> 7]"]
  by blast

text \<open>
  C10. Sentinel coupling: \<open>generatePlan\<close> returns a plan when the font table is well
  formed, and in every plan it returns a unit has \<open>char = 'bg'\<close> exactly when its
  \<open>row\<close> and \<open>col\<close> are both -1; such a unit occurs only when the background level
  is not \<open>null\<close>; every other unit has the key and the coordinates of the text-pixel
  entry stored for its date.
\<close>

theorem generatePlan_sentinel_coupling:
  "(wellFormedFont FONT \<longrightarrow>
      (\<exists>plan ws. generatePlan FONT zone text year P startWeek bg E = Inr (plan, ws)))
   \<and> (\<forall>plan ws. generatePlan FONT zone text year P startWeek bg E = Inr (plan, ws) \<longrightarrow>
        (\<exists>m. layout FONT (getGraphStartDate year) year startWeek [] [] (toUpperCase text) = Inr (m, ws)
           \<and> (\<forall>u \<in> set plan.
                 (char u = ''bg'' \<longleftrightarrow> row u = - 1 \<and> col u = - 1)
                 \<and> (char u = ''bg'' \<longrightarrow> bg \<noteq> None)
                 \<and> (char u \<noteq> ''bg'' \<longrightarrow>
                      (\<exists>e. map_of m (date u) = Some e \<and> char u = entry_char e
                           \<and> row u = entry_row e \<and> col u = entry_col e)))))"
proof (intro conjI impI allI)
  assume "wellFormedFont FONT"
  then show "\<exists>plan ws. generatePlan FONT zone text year P startWeek bg E = Inr (plan, ws)"
    by (rule generatePlan_total)
next
  fix plan ws
  assume g: "generatePlan FONT zone text year P startWeek bg E = Inr (plan, ws)"
  then obtain m where l: "layout FONT (getGraphStartDate year) year startWeek [] [] (toUpperCase text) = Inr (m, ws)"
    and ok: "textMapOk FONT (getGraphStartDate year) year startWeek m"
    and p: "plan = sortBy (\<lambda>a b. localeCompare (date a) (date b)) (emitPlan zone m year P bg E)"
    using generatePlan_result by blast
  have "(char u = ''bg'' \<longleftrightarrow> row u = - 1 \<and> col u = - 1)
            \<and> (char u = ''bg'' \<longrightarrow> bg \<noteq> None)
            \<and> (char u \<noteq> ''bg'' \<longrightarrow>
                 (\<exists>e. map_of m (date u) = Some e \<and> char u = entry_char e
                      \<and> row u = entry_row e \<and> col u = entry_col e))"
    if "u \<in> set (emitPlan zone m year P bg E)" for u
    using emitPlan_unit [OF ok that] by (auto simp: textEntryOk_def)
  then show "\<exists>m. layout FONT (getGraphStartDate year) year startWeek [] [] (toUpperCase text) = Inr (m, ws)
           \<and> (\<forall>u \<in> set plan.
                 (char u = ''bg'' \<longleftrightarrow> row u = - 1 \<and> col u = - 1)
                 \<and> (char u = ''bg'' \<longrightarrow> bg \<noteq> None)
                 \<and> (char u \<noteq> ''bg'' \<longrightarrow>
                      (\<exists>e. map_of m (date u) = Some e \<and> char u = entry_char e
                           \<and> row u = entry_row e \<and> col u = entry_col e)))"
    using l unfolding p by (simp add: set_sortBy)
qed

theorem generatePlan_sentinel_coupling_witness:
  "wellFormedFont demoFont
   \<and> (\<exists>plan ws. generatePlan demoFont noClockChange ''I<3'' 2026 20 1 (Some 5) Map.empty = Inr (plan, ws)
        \<and> (\<forall>u \<in> set plan. (char u = ''bg'' \<longleftrightarrow> row u = - 1 \<and> col u = - 1)))"
proof -
  note t = generatePlan_sentinel_coupling [of demoFont noClockChange "''I<3''" 2026 20 1 "Some 5" Map.empty]
  obtain plan ws where g: "generatePlan demoFont noClockChange ''I<3'' 2026 20 1 (Some 5) Map.empty = Inr (plan, ws)"
    using t wellFormedFont_demoFont by blast
  have "\<forall>u \<in> set plan. (char u = ''bg'' \<longleftrightarrow> row u = - 1 \<and> col u = - 1)"
    using t g by blast
  then show ?thesis using wellFormedFont_demoFont g by blast
qed

end
